theory Spec2Isabelle
  imports Main "HOL-Library.Char_ord" "HOL-Library.List_Lexorder"
begin

chapter \<open>The daily-preparation interface of pf2e-dailies\<close>

text \<open>
  A shallow embedding of the interface module (\<^verbatim>\<open>DailyInterface\<close> and the
  \<^verbatim>\<open>migration\<close> function): the migration gate, the template builder's row loop, the
  uniqueness resolver, the spell drop validation and the accept processing. Every
  definition follows the source function of the same name. Functions of the host
  platform and of other modules (version comparison, localisation, random choice, the
  item store) are passed in as parameters.
\<close>

section \<open>Strings\<close>

text \<open>\<^verbatim>\<open>Array.prototype.join\<close>.\<close>

fun join :: "string \<Rightarrow> string list \<Rightarrow> string" where
  "join sep [] = []"
| "join sep [x] = x"
| "join sep (x # y # ys) = x @ sep @ join sep (y # ys)"

text \<open>
  \<^verbatim>\<open>String.prototype.trim\<close>: white space and line terminators are removed from both
  ends. Of the characters JavaScript removes, those that fit in a byte are the tab, line
  feed, vertical tab, form feed, carriage return, space and no-break space.
\<close>

definition is_space :: "char \<Rightarrow> bool" where
  "is_space c = (c \<in> set [CHR 0x09, CHR 0x0A, CHR 0x0B, CHR 0x0C, CHR 0x0D, CHR 0x20, CHR 0xA0])"

definition trim :: "string \<Rightarrow> string" where
  "trim s = rev (dropWhile is_space (rev (dropWhile is_space s)))"

section \<open>Persisted flags and the actor\<close>

text \<open>
  \<^verbatim>\<open>DailyRowData\<close>: a plain string (select, input, random), \<^verbatim>\<open>{selected, input}\<close>
  (combo) or \<^verbatim>\<open>{uuid, name}\<close> (drop; the uuid is read from the element's dataset and
  may be missing).
\<close>

datatype row_data =
  RowString string
| RowCombo string bool
| RowDrop "string option" string

text \<open>
  The module's flag bucket on a character (\<^verbatim>\<open>DailyActorFlags\<close>): one entry per daily
  key holding that daily's saved rows, and the entries \<^verbatim>\<open>extra\<close>, \<^verbatim>\<open>rested\<close>,
  \<^verbatim>\<open>schema\<close> and \<^verbatim>\<open>addedItems\<close>. The extra bucket is kept as a map from key to
  text.
\<close>

datatype flag_value =
  FlagRows "string \<rightharpoonup> row_data"
| FlagExtra "string \<rightharpoonup> string"
| FlagBool bool
| FlagString string
| FlagIds "string list"

type_synonym flags = "string \<rightharpoonup> flag_value"

text \<open>
  The character: its module flag bucket (\<open>None\<close> when the character has no flag of
  this module, which is what \<^verbatim>\<open>hasModuleFlag\<close> tests), its familiar, and whether it
  holds staves (\<^verbatim>\<open>hasStaves\<close>, of another module).
\<close>

record actor =
  moduleFlags :: "flags option"
  familiar :: "string option"
  staves :: bool

definition hasModuleFlag :: "actor \<Rightarrow> bool" where
  "hasModuleFlag a = (moduleFlags a \<noteq> None)"

text \<open>\<^verbatim>\<open>getActorFlag(actor, "schema") ?? ""\<close>\<close>

definition getSchemaFlag :: "actor \<Rightarrow> string" where
  "getSchemaFlag a =
     (case moduleFlags a of
        None \<Rightarrow> []
      | Some fl \<Rightarrow> (case fl ''schema'' of Some (FlagString s) \<Rightarrow> s | _ \<Rightarrow> []))"

text \<open>\<^verbatim>\<open>unsetMofuleFlag(actor)\<close> removes the whole bucket of the module.\<close>

definition unsetMofuleFlag :: "actor \<Rightarrow> actor" where
  "unsetMofuleFlag a = a\<lparr>moduleFlags := None\<rparr>"

text \<open>\<^verbatim>\<open>setFlag(actor, key, value)\<close> writes one entry of the bucket.\<close>

definition setFlag :: "actor \<Rightarrow> string \<Rightarrow> flag_value \<Rightarrow> actor" where
  "setFlag a k v =
     a\<lparr>moduleFlags := Some ((case moduleFlags a of None \<Rightarrow> Map.empty | Some fl \<Rightarrow> fl)(k \<mapsto> v))\<rparr>"

section \<open>Migration gate\<close>

definition ACTOR_DAILY_SCHEMA :: string where
  "ACTOR_DAILY_SCHEMA = ''3.0.0''"

text \<open>
  One entry of a migration's \<^verbatim>\<open>messages\<close>: a key, a list of keys, or an object with an
  optional condition on the actor and a key or a list of keys.
\<close>

datatype message_keys = OneKey string | ManyKeys "string list"

datatype migration_message =
  Direct message_keys
| Conditional "(actor \<Rightarrow> bool) option" message_keys

record migration_entry =
  schema :: string
  reset :: "bool option"
  messages :: "migration_message list"

definition MIGRATIONS :: "migration_entry list" where
  "MIGRATIONS =
     [\<lparr>schema = ''3.0.0'', reset = Some True,
       messages =
         [Direct (OneKey ''filter''),
          Conditional (Some (\<lambda>a. familiar a \<noteq> None))
            (ManyKeys [''familiar.now-remove'', ''familiar.cant-remove'']),
          Conditional (Some (\<lambda>a. staves a)) (OneKey ''staves.moved'')]\<rparr>]"

text \<open>\<^verbatim>\<open>R.isArray(messageList) ? messageList : [messageList]\<close>\<close>

fun keys_of :: "message_keys \<Rightarrow> string list" where
  "keys_of (OneKey k) = [k]"
| "keys_of (ManyKeys ks) = ks"

text \<open>
  The inner loop over a migration's messages; \<open>None\<close> is the \<^verbatim>\<open>continue\<close> of an
  entry whose condition is a function that returns false. \<open>loc\<close> is
  \<^verbatim>\<open>localize("interface.migration", x)\<close>.
\<close>

fun formatMessage :: "(string \<Rightarrow> string) \<Rightarrow> actor \<Rightarrow> migration_message \<Rightarrow> string option" where
  "formatMessage loc a (Direct ks) =
     Some (join [] (map (\<lambda>x. ''<p>'' @ loc x @ ''</p>'') (keys_of ks)))"
| "formatMessage loc a (Conditional c ks) =
     (case c of
        Some cond \<Rightarrow>
          (if \<not> cond a then None
           else Some (join [] (map (\<lambda>x. ''<p>'' @ loc x @ ''</p>'') (keys_of ks))))
      | None \<Rightarrow> Some (join [] (map (\<lambda>x. ''<p>'' @ loc x @ ''</p>'') (keys_of ks))))"

text \<open>
  The loop over the catalog, as a fold over \<open>(reset, messages)\<close>. \<open>newer\<close> is the
  host's \<^verbatim>\<open>isNewerVersion\<close>.
\<close>

fun migrationLoop ::
  "(string \<Rightarrow> string \<Rightarrow> bool) \<Rightarrow> (string \<Rightarrow> string) \<Rightarrow> actor \<Rightarrow> string \<Rightarrow>
   migration_entry list \<Rightarrow> bool \<times> string list \<Rightarrow> bool \<times> string list" where
  "migrationLoop newer loc a s [] acc = acc"
| "migrationLoop newer loc a s (m # ms) (rst, msgs) =
     (if \<not> newer (schema m) s then migrationLoop newer loc a s ms (rst, msgs)
      else
        let rst' = (rst \<or> reset m = Some True);
            migrationMessages = List.map_filter (formatMessage loc a) (messages m);
            msgs' = (if migrationMessages \<noteq> []
                     then msgs @ [''<h3>'' @ schema m @ ''</h3>'', join ''<hr />'' migrationMessages]
                     else msgs)
        in migrationLoop newer loc a s ms (rst', msgs'))"

text \<open>
  \<^verbatim>\<open>migration(actor)\<close> over a catalog: the actor afterwards, and the content of the
  dialog that is scheduled, if any. \<open>locReset\<close> is
  \<^verbatim>\<open>localize("interface.migration.reset")\<close>.
\<close>

definition migrationWith ::
  "(string \<Rightarrow> string \<Rightarrow> bool) \<Rightarrow> (string \<Rightarrow> string) \<Rightarrow> string \<Rightarrow> migration_entry list \<Rightarrow>
   actor \<Rightarrow> actor \<times> string option" where
  "migrationWith newer loc locReset catalog a =
     (if \<not> hasModuleFlag a then (a, None)
      else
        let s = getSchemaFlag a in
        if \<not> newer ACTOR_DAILY_SCHEMA s then (a, None)
        else
          let (rst, msgs) = migrationLoop newer loc a s catalog (False, []);
              msgs' = (if rst then locReset # ''<br>'' # msgs else msgs);
              a' = (if rst then unsetMofuleFlag a
                    else setFlag a ''schema'' (FlagString ACTOR_DAILY_SCHEMA))
          in if msgs' = [] then (a', None)
             else (a', Some (join [] (msgs' @ [''<br>'']))))"

definition migration ::
  "(string \<Rightarrow> string \<Rightarrow> bool) \<Rightarrow> (string \<Rightarrow> string) \<Rightarrow> string \<Rightarrow> actor \<Rightarrow> actor \<times> string option" where
  "migration newer loc locReset a = migrationWith newer loc locReset MIGRATIONS a"

text \<open>
  Modelled from the spec: \<^verbatim>\<open>isNewerVersion\<close> is a function of the host platform and is
  not part of the module; the spec says that schema versions are "compared with standard
  semantic-version ordering". The dot-separated parts are read as numbers and compared
  from the left; a version with more parts than an equal prefix is the newer one.
\<close>

fun split_dots :: "string \<Rightarrow> string list" where
  "split_dots [] = [[]]"
| "split_dots (c # cs) =
     (if c = CHR ''.'' then [] # split_dots cs
      else (case split_dots cs of [] \<Rightarrow> [[c]] | p # ps \<Rightarrow> (c # p) # ps))"

definition parse_number :: "string \<Rightarrow> nat" where
  "parse_number s = foldl (\<lambda>n c. 10 * n + (of_char c - 48)) 0 s"

fun newer_parts :: "nat list \<Rightarrow> nat list \<Rightarrow> bool" where
  "newer_parts [] _ = False"
| "newer_parts (a # as) [] = True"
| "newer_parts (a # as) (b # bs) = (if a \<noteq> b then a > b else newer_parts as bs)"

definition isNewerVersion :: "string \<Rightarrow> string \<Rightarrow> bool" where
  "isNewerVersion v1 v0 =
     newer_parts (map parse_number (split_dots v1)) (map parse_number (split_dots v0))"

section \<open>Uniqueness resolver\<close>

text \<open>
  An \<^verbatim>\<open>option\<close> element of a select: its value, its \<^verbatim>\<open>data-unique\<close> and
  \<^verbatim>\<open>data-skip-unique\<close> attributes (absent when \<open>None\<close>) and its disabled flag. A
  select element: its selected index (-1 when nothing is selected) and its options.
\<close>

record select_option =
  opt_value :: string
  data_unique :: "string option"
  data_skipUnique :: "string option"
  opt_disabled :: bool

record select_element =
  selectedIndex :: int
  sel_options :: "select_option list"

datatype js_error = TypeError | UnhandledRejection

text \<open>\<^verbatim>\<open>option.dataset.unique ?? option.value\<close>\<close>

definition uniqueOrValue :: "select_option \<Rightarrow> string" where
  "uniqueOrValue option = (case data_unique option of Some u \<Rightarrow> u | None \<Rightarrow> opt_value option)"

text \<open>
  The closure \<^verbatim>\<open>optionUniqueValue\<close>, at the index the loop is at: \<open>None\<close> is
  \<^verbatim>\<open>undefined\<close>, the value of an option marked skip-unique.
\<close>

definition uniqueValueOf :: "select_option \<Rightarrow> string option" where
  "uniqueValueOf option =
     (if data_skipUnique option = Some ''true'' then None else Some (uniqueOrValue option))"

definition optionUniqueValue :: "select_option list \<Rightarrow> nat \<Rightarrow> string option" where
  "optionUniqueValue selectOptions index = uniqueValueOf (selectOptions ! index)"

text \<open>
  The closure \<^verbatim>\<open>optionExists\<close>: \<^verbatim>\<open>value && uniqueOptions.has(value)\<close>, which is false
  for \<^verbatim>\<open>undefined\<close> and for the empty string.
\<close>

definition optionExists :: "string set \<Rightarrow> select_option list \<Rightarrow> nat \<Rightarrow> bool" where
  "optionExists uniqueOptions selectOptions index =
     (case optionUniqueValue selectOptions index of
        None \<Rightarrow> False
      | Some v \<Rightarrow> v \<noteq> [] \<and> v \<in> uniqueOptions)"

text \<open>\<^verbatim>\<open>while (optionExists() && index > 0) index -= 1\<close>\<close>

fun probeDown :: "string set \<Rightarrow> select_option list \<Rightarrow> nat \<Rightarrow> nat" where
  "probeDown uniqueOptions selectOptions 0 = 0"
| "probeDown uniqueOptions selectOptions (Suc index) =
     (if optionExists uniqueOptions selectOptions (Suc index)
      then probeDown uniqueOptions selectOptions index
      else Suc index)"

text \<open>\<^verbatim>\<open>while (optionExists() && index < maxIndex) index += 1\<close>\<close>

function probeUp :: "string set \<Rightarrow> select_option list \<Rightarrow> nat \<Rightarrow> nat \<Rightarrow> nat" where
  "probeUp uniqueOptions selectOptions maxIndex index =
     (if optionExists uniqueOptions selectOptions index \<and> index < maxIndex
      then probeUp uniqueOptions selectOptions maxIndex (Suc index)
      else index)"
  by pat_completeness auto
termination
  by (relation "measure (\<lambda>(uniqueOptions, selectOptions, maxIndex, index). maxIndex - index)") auto

declare probeUp.simps [simp del]

text \<open>
  The body of the first loop for one select element, from the claimed set so far to the
  claimed set and the element afterwards. Reading \<^verbatim>\<open>selectOptions[index].dataset\<close> at
  an index that is no option (the selected index -1 of a select with nothing selected)
  throws; the loops keep an index that starts at an option at an option. An element whose
  probing ends on a conflict is left as it was (\<^verbatim>\<open>continue\<close>).
\<close>

definition resolveElement ::
  "string set \<Rightarrow> select_element \<Rightarrow> js_error + (string set \<times> select_element)" where
  "resolveElement uniqueOptions selectEl =
     (let selectOptions = sel_options selectEl in
      if selectedIndex selectEl < 0 \<or> int (length selectOptions) \<le> selectedIndex selectEl
      then Inl TypeError
      else
        let maxIndex = length selectOptions - 1;
            index = probeUp uniqueOptions selectOptions maxIndex
                      (probeDown uniqueOptions selectOptions (nat (selectedIndex selectEl)))
        in if optionExists uniqueOptions selectOptions index then Inr (uniqueOptions, selectEl)
           else
             let uniqueOptions' =
                   (case optionUniqueValue selectOptions index of
                      None \<Rightarrow> uniqueOptions
                    | Some finalValue \<Rightarrow>
                        if finalValue \<noteq> [] then insert finalValue uniqueOptions
                        else uniqueOptions)
             in Inr (uniqueOptions', selectEl\<lparr>selectedIndex := int index\<rparr>))"

text \<open>The first loop over the select elements of the group, in document order.\<close>

fun resolveAll ::
  "string set \<Rightarrow> select_element list \<Rightarrow> js_error + (string set \<times> select_element list)" where
  "resolveAll uniqueOptions [] = Inr (uniqueOptions, [])"
| "resolveAll uniqueOptions (selectEl # rest) =
     (case resolveElement uniqueOptions selectEl of
        Inl e \<Rightarrow> Inl e
      | Inr (uniqueOptions', selectEl') \<Rightarrow>
          (case resolveAll uniqueOptions' rest of
             Inl e \<Rightarrow> Inl e
           | Inr (uniqueOptions'', rest') \<Rightarrow> Inr (uniqueOptions'', selectEl' # rest')))"

text \<open>
  The second loop: every option but the selected one is disabled exactly when its
  \<^verbatim>\<open>dataset.unique ?? value\<close> is claimed; the selected option keeps its flag.
\<close>

definition updateDisabled :: "string set \<Rightarrow> select_element \<Rightarrow> select_element" where
  "updateDisabled uniqueOptions selectEl =
     selectEl\<lparr>sel_options :=
       map (\<lambda>(i, option).
              if int i = selectedIndex selectEl then option
              else option\<lparr>opt_disabled := (uniqueOrValue option \<in> uniqueOptions)\<rparr>)
           (enumerate 0 (sel_options selectEl))\<rparr>"

text \<open>
  \<^verbatim>\<open>#onUniqueChange\<close>, on the select elements that carry the unique tag (the result of
  the \<^verbatim>\<open>querySelectorAll\<close>), in document order.
\<close>

definition onUniqueChange :: "select_element list \<Rightarrow> js_error + select_element list" where
  "onUniqueChange selectElements =
     (case resolveAll {} selectElements of
        Inl e \<Rightarrow> Inl e
      | Inr (uniqueOptions, resolved) \<Rightarrow> Inr (map (updateDisabled uniqueOptions) resolved))"

text \<open>
  The unique-value of the option a select element is on, and the unique-values of the
  selections of a group that are not exempt.
\<close>

definition selectedUnique :: "select_element \<Rightarrow> string option" where
  "selectedUnique selectEl = optionUniqueValue (sel_options selectEl) (nat (selectedIndex selectEl))"

definition selectedUniqueValues :: "select_element list \<Rightarrow> string list" where
  "selectedUniqueValues selectElements = List.map_filter selectedUnique selectElements"

text \<open>The distinct non-empty unique-values that the options of a select offer.\<close>

definition claimableValues :: "select_option list \<Rightarrow> string list" where
  "claimableValues selectOptions =
     remdups (filter (\<lambda>v. v \<noteq> []) (List.map_filter uniqueValueOf selectOptions))"

text \<open>Every select element of the group has an option selected.\<close>

definition allSelected :: "select_element list \<Rightarrow> bool" where
  "allSelected selectElements =
     list_all (\<lambda>el. 0 \<le> selectedIndex el \<and> selectedIndex el < int (length (sel_options el)))
       selectElements"

section \<open>Template builder\<close>

datatype row_type = Select | Random | Combo | Alert | Input | Notify | Drop

datatype drop_type = Feat | Spell

text \<open>\<^verbatim>\<open>TEMPLATE_ORDER\<close>\<close>

fun TEMPLATE_ORDER :: "row_type \<Rightarrow> int" where
  "TEMPLATE_ORDER Select = 100"
| "TEMPLATE_ORDER Combo = 80"
| "TEMPLATE_ORDER Random = 60"
| "TEMPLATE_ORDER Alert = 40"
| "TEMPLATE_ORDER Input = 20"
| "TEMPLATE_ORDER Notify = 20"
| "TEMPLATE_ORDER Drop = 0"

text \<open>
  An entry of a row's option list: a group marker \<^verbatim>\<open>{group}\<close>, or an option with its
  value, label, \<^verbatim>\<open>unique\<close> and \<^verbatim>\<open>skipUnique\<close>. The template's list also holds
  \<^verbatim>\<open>{groupEnd: true}\<close> markers.
\<close>

datatype row_option =
  GroupStart string
| Choice string string "string option" bool

datatype template_option =
  TemplateGroup string
| TemplateChoice string string "string option" bool
| GroupEnd

text \<open>
  A row definition as the daily's \<^verbatim>\<open>rows\<close> callback returns it. Optional fragment are
  options; the fragment of another row type are not read.
\<close>

record daily_row =
  row_slug :: string
  row_kind :: row_type
  row_label :: "string option"
  row_condition :: "bool option"
  row_order :: "int option"
  row_save :: "bool option"
  row_empty :: "bool option"
  row_options :: "row_option list"
  row_unique :: "string option"
  row_filter_type :: drop_type
  row_note :: "string option"
  row_message :: string

text \<open>The dataset written on the row's element (\<^verbatim>\<open>rowData\<close>).\<close>

record row_dataset =
  ds_daily :: string
  ds_type :: row_type
  ds_row :: string
  ds_save :: string
  ds_empty :: string
  ds_input :: "string option"
  ds_uuid :: "string option"
  ds_droptype :: "drop_type option"

text \<open>
  \<^verbatim>\<open>RowTemplate\<close>. The field \<^verbatim>\<open>data\<close> holds the dataset itself, which
  \<^verbatim>\<open>dataToDatasetString\<close> renders as attributes.
\<close>

record row_template =
  t_type :: row_type
  t_label :: string
  t_daily :: string
  t_row :: string
  t_value :: "string option"
  t_note :: "string option"
  t_selected :: "string option"
  t_unique :: "string option"
  t_order :: int
  t_data :: row_dataset
  t_options :: "template_option list option"

definition stringBoolean :: "bool \<Rightarrow> string" where
  "stringBoolean b = (if b then ''true'' else ''false'')"

text \<open>
  The loop over a row's options. \<open>openedGroups\<close> is the stack of the source:
  \<^verbatim>\<open>pop\<close> takes its last element, and a group end is pushed when the popped name is a
  non-empty string. At the end one group end is pushed per name left on the stack.
  \<open>loc\<close> is \<^verbatim>\<open>game.i18n.localize\<close>.
\<close>

fun buildOptions :: "(string \<Rightarrow> string) \<Rightarrow> string list \<Rightarrow> row_option list \<Rightarrow> template_option list" where
  "buildOptions loc openedGroups [] = map (\<lambda>_. GroupEnd) openedGroups"
| "buildOptions loc openedGroups (GroupStart g # rest) =
     (let popped = (if openedGroups = [] then None else Some (last openedGroups));
          openedGroups' = butlast openedGroups;
          ends = (case popped of Some (c # cs) \<Rightarrow> [GroupEnd] | _ \<Rightarrow> [])
      in ends @ TemplateGroup (loc g) # buildOptions loc (openedGroups' @ [g]) rest)"
| "buildOptions loc openedGroups (Choice v l u s # rest) =
     TemplateChoice v (loc l) u s # buildOptions loc openedGroups rest"

text \<open>\<^verbatim>\<open>getFlag(actor, daily.key, row.slug)\<close>\<close>

definition getFlag :: "actor \<Rightarrow> string \<Rightarrow> string \<Rightarrow> row_data option" where
  "getFlag a dailyKey slug =
     (case moduleFlags a of
        None \<Rightarrow> None
      | Some fl \<Rightarrow> (case fl dailyKey of Some (FlagRows rows) \<Rightarrow> rows slug | _ \<Rightarrow> None))"

text \<open>
  \<^verbatim>\<open>"value" in option && option.value === selected\<close>, the test of the \<^verbatim>\<open>find\<close> of a
  combo row.
\<close>

fun choiceHasValue :: "string option \<Rightarrow> template_option \<Rightarrow> bool" where
  "choiceHasValue selected (TemplateChoice v l u s) = (selected = Some v)"
| "choiceHasValue selected _ = False"

fun choiceLabel :: "template_option \<Rightarrow> string option" where
  "choiceLabel (TemplateChoice v l u s) = Some l"
| "choiceLabel _ = None"

fun choiceValue :: "template_option \<Rightarrow> string option" where
  "choiceValue (TemplateChoice v l u s) = Some v"
| "choiceValue _ = None"

text \<open>
  The body of the loop over the rows of one daily: \<open>None\<close> is a \<^verbatim>\<open>continue\<close> (no
  row template is pushed), \<open>Some\<close> the row template that is pushed, whose
  \<^verbatim>\<open>data\<close> is the dataset as it stands at the end of the body. A saved flag of a
  shape other than the row type's own is read as absent.
\<close>

definition buildRow :: "(string \<Rightarrow> string) \<Rightarrow> actor \<Rightarrow> string \<Rightarrow> daily_row \<Rightarrow> row_template option" where
  "buildRow loc a dailyKey row =
     (if row_condition row = Some False then None
      else
        let rowLabel = (case row_label row of Some l \<Rightarrow> loc l | None \<Rightarrow> row_slug row);
            isSavedRow = (row_save row \<noteq> Some False);
            saved = (if isSavedRow then getFlag a dailyKey (row_slug row) else None);
            rowData =
              \<lparr>ds_daily = dailyKey, ds_type = row_kind row, ds_row = row_slug row,
               ds_save = stringBoolean isSavedRow,
               ds_empty = stringBoolean (case row_empty row of Some b \<Rightarrow> b | None \<Rightarrow> False),
               ds_input = None, ds_uuid = None, ds_droptype = None\<rparr>;
            rowTemplate =
              \<lparr>t_type = row_kind row, t_label = rowLabel, t_daily = dailyKey, t_row = row_slug row,
               t_value = None, t_note = None, t_selected = None, t_unique = None,
               t_order = (case row_order row of Some n \<Rightarrow> n | None \<Rightarrow> TEMPLATE_ORDER (row_kind row)),
               t_data = rowData, t_options = None\<rparr>
        in
        if row_kind row \<in> {Select, Combo, Random} then
          let opts = buildOptions loc [] (row_options row);
              rowTemplate1 = rowTemplate\<lparr>t_options := Some opts\<rparr>;
              rowTemplate2 =
                (if row_kind row \<in> {Combo, Select} \<and> row_unique row \<noteq> None \<and>
                    row_unique row \<noteq> Some [] \<and> length opts > 1
                 then rowTemplate1\<lparr>t_unique := row_unique row\<rparr> else rowTemplate1)
          in
          if row_kind row = Combo then
            let (input, selected) =
                  (case saved of Some (RowCombo sel inp) \<Rightarrow> (Some inp, Some sel) | _ \<Rightarrow> (None, None));
                isInput = (case input of Some b \<Rightarrow> b | None \<Rightarrow> True);
                option = (if isInput then None else List.find (choiceHasValue selected) opts);
                value = (if isInput then selected else Option.bind option choiceLabel);
                sel = (if isInput then None else Option.bind option choiceValue)
            in Some (rowTemplate2
                 \<lparr>t_value := Some (case value of Some v \<Rightarrow> v | None \<Rightarrow> []),
                  t_selected := Some (case sel of Some (c # cs) \<Rightarrow> c # cs | _ \<Rightarrow> []),
                  t_data := rowData\<lparr>ds_input := Some (stringBoolean isInput)\<rparr>\<rparr>)
          else if row_options row = [] then None
          else
            Some (rowTemplate2
              \<lparr>t_selected := Some (case saved of Some (RowString s) \<Rightarrow> s | _ \<Rightarrow> []),
               t_data := rowData\<rparr>)
        else if row_kind row = Drop then
          let (name, uuid) =
                (case saved of Some (RowDrop u n) \<Rightarrow> (Some n, u) | _ \<Rightarrow> (None, None))
          in Some (rowTemplate
               \<lparr>t_note := row_note row,
                t_value := Some (case name of Some n \<Rightarrow> n | None \<Rightarrow> []),
                t_data := rowData\<lparr>ds_uuid := Some (case uuid of Some u \<Rightarrow> u | None \<Rightarrow> []),
                                  ds_droptype := Some (row_filter_type row)\<rparr>\<rparr>)
        else if row_kind row = Alert then
          Some (rowTemplate
            \<lparr>t_value := Some (row_message row),
             t_data := rowData\<lparr>ds_save := stringBoolean False, ds_empty := stringBoolean False\<rparr>\<rparr>)
        else if row_kind row = Input then
          Some (rowTemplate
            \<lparr>t_value := Some (case saved of Some (RowString s) \<Rightarrow> s | _ \<Rightarrow> []),
             t_data := rowData\<rparr>)
        else Some (rowTemplate\<lparr>t_data := rowData\<rparr>))"

text \<open>
  A prepared daily at render time: its key, its resolved label and the rows its
  \<^verbatim>\<open>rows\<close> callback returned. \<^verbatim>\<open>DailyTemplate\<close> is a label with row templates.
\<close>

record prepared_daily =
  daily_key :: string
  daily_label :: string
  daily_rows :: "daily_row list"

record daily_template =
  dt_label :: string
  dt_rows :: "row_template list"

text \<open>The row templates of one daily: those rows whose loop body pushes one.\<close>

definition buildRows :: "(string \<Rightarrow> string) \<Rightarrow> actor \<Rightarrow> prepared_daily \<Rightarrow> row_template list" where
  "buildRows loc a daily = List.map_filter (buildRow loc a (daily_key daily)) (daily_rows daily)"

text \<open>
  The callback mapped over the dailies: a disabled daily and a daily without row
  templates give no template. The dailies are taken in the order of the array.
\<close>

definition buildTemplates ::
  "(string \<Rightarrow> string) \<Rightarrow> actor \<Rightarrow> (string \<Rightarrow> bool) \<Rightarrow> prepared_daily list \<Rightarrow> daily_template list" where
  "buildTemplates loc a disabled dailies =
     List.map_filter
       (\<lambda>daily.
          if disabled (daily_key daily) then None
          else
            let rows = buildRows loc a daily
            in if rows \<noteq> [] then Some \<lparr>dt_label = daily_label daily, dt_rows = rows\<rparr> else None)
       dailies"

text \<open>
  \<^verbatim>\<open>hasAlert\<close> is set when the loop body reaches an alert row, that is, for an alert
  row of an enabled daily whose condition is not false.
\<close>

definition rendersAlert :: "(string \<Rightarrow> bool) \<Rightarrow> prepared_daily list \<Rightarrow> bool" where
  "rendersAlert disabled dailies =
     list_ex
       (\<lambda>daily. \<not> disabled (daily_key daily) \<and>
          list_ex (\<lambda>row. row_condition row \<noteq> Some False \<and> row_kind row = Alert) (daily_rows daily))
       dailies"

text \<open>
  \<^verbatim>\<open>Array.prototype.sort\<close> with a comparison function, which is a stable sort: an
  insertion sort in which \<open>before a b\<close> says that the comparison of \<open>a\<close> with
  \<open>b\<close> is not positive, so that \<open>a\<close> stays in front of \<open>b\<close>.
\<close>

fun insertSorted :: "('a \<Rightarrow> 'a \<Rightarrow> bool) \<Rightarrow> 'a \<Rightarrow> 'a list \<Rightarrow> 'a list" where
  "insertSorted before x [] = [x]"
| "insertSorted before x (y # ys) =
     (if before x y then x # y # ys else y # insertSorted before x ys)"

definition stableSort :: "('a \<Rightarrow> 'a \<Rightarrow> bool) \<Rightarrow> 'a list \<Rightarrow> 'a list" where
  "stableSort before xs = foldr (insertSorted before) xs []"

text \<open>What \<^verbatim>\<open>getData\<close> returns, apart from the localisation helper.\<close>

record template_data =
  td_rows :: "row_template list"
  td_groups :: "daily_template list"
  td_hasDailies :: bool
  td_hasAlert :: bool
  td_canAccept :: bool

text \<open>
  The part of \<^verbatim>\<open>getData\<close> after the migration gate: a template with exactly one row
  that is no alert gives a flat row under the daily's label, any other template a group;
  rows are sorted by descending order, groups by ascending number of rows.
\<close>

definition collectTemplates :: "(string \<Rightarrow> string) \<Rightarrow> actor \<Rightarrow> (string \<Rightarrow> bool) \<Rightarrow> prepared_daily list \<Rightarrow> template_data" where
  "collectTemplates loc a disabled dailies =
     (let templates = buildTemplates loc a disabled dailies;
          flat = (\<lambda>t. length (dt_rows t) = 1 \<and> t_type (hd (dt_rows t)) \<noteq> Alert);
          rows = map (\<lambda>t. (hd (dt_rows t))\<lparr>t_label := dt_label t\<rparr>) (filter flat templates);
          groups = filter (\<lambda>t. \<not> flat t \<and> dt_rows t \<noteq> []) templates;
          rows' = stableSort (\<lambda>a b. t_order b - t_order a \<le> 0) rows;
          groups' = stableSort (\<lambda>a b. int (length (dt_rows a)) - int (length (dt_rows b)) \<le> 0) groups;
          hasDailies = (rows' \<noteq> [] \<or> groups' \<noteq> []);
          hasAlert = rendersAlert disabled dailies
      in \<lparr>td_rows = rows', td_groups = groups', td_hasDailies = hasDailies,
          td_hasAlert = hasAlert, td_canAccept = (hasDailies \<and> \<not> hasAlert)\<rparr>)"

text \<open>\<^verbatim>\<open>getData\<close>: the migration gate, then the templates from the actor it leaves.\<close>

definition getData ::
  "(string \<Rightarrow> string \<Rightarrow> bool) \<Rightarrow> (string \<Rightarrow> string) \<Rightarrow> string \<Rightarrow> (string \<Rightarrow> string) \<Rightarrow> actor \<Rightarrow>
   (string \<Rightarrow> bool) \<Rightarrow> prepared_daily list \<Rightarrow> actor \<times> string option \<times> template_data" where
  "getData newer locMigration locReset loc a disabled dailies =
     (let (a', dialog) = migration newer locMigration locReset a
      in (a', dialog, collectTemplates loc a' disabled dailies))"

text \<open>All row templates that are rendered, flat rows first.\<close>

definition renderedRows :: "template_data \<Rightarrow> row_template list" where
  "renderedRows td = td_rows td @ concat (map dt_rows (td_groups td))"

section \<open>Drop validation of spells\<close>

text \<open>
  The dropped spell, as far as the validation reads it: its rank, the three category
  flags, its traditions, traits and rarity, and the text of its publication source
  (\<^verbatim>\<open>system.publication?.title ?? system.source?.value ?? ""\<close>).
\<close>

record spell_item =
  sp_rank :: nat
  sp_isCantrip :: bool
  sp_isFocusSpell :: bool
  sp_isRitual :: bool
  sp_traditions :: "string list"
  sp_traits :: "string list"
  sp_rarity :: string
  sp_source :: string

text \<open>
  The compendium filter of a spell row (\<^verbatim>\<open>SpellFilters\<close>): the selected values of
  its checkboxes, and the selected traits (each with its negation mark) with their
  conjunction.
\<close>

record spell_filter =
  cb_rank :: "string list"
  cb_category :: "string list"
  cb_traditions :: "string list"
  cb_rarity :: "string list"
  cb_source :: "string list"
  ms_traits :: "(string \<times> bool) list"
  ms_conjunction :: string

text \<open>
  The warnings of the validation. \<^verbatim>\<open>#dropDataWarning(type, need, has)\<close> takes a
  string, an array or nothing for what is needed and what the item has; the warning is
  kept with these arguments before they are localised.
\<close>

datatype warning_argument = Text string | Texts "string list" | Nothing

datatype drop_warning =
  WrongTraits
| DropDataWarning string warning_argument warning_argument

datatype validation = Valid | Invalid drop_warning

text \<open>\<^verbatim>\<open>String(n)\<close> for a natural number.\<close>

fun string_of_nat :: "nat \<Rightarrow> string" where
  "string_of_nat n =
     (if n < 10 then [char_of (48 + n)]
      else string_of_nat (n div 10) @ [char_of (48 + n mod 10)])"

declare string_of_nat.simps [simp del]

text \<open>\<^verbatim>\<open>t.replace(/^hb_/, "")\<close>\<close>

definition stripHomebrew :: "string \<Rightarrow> string" where
  "stripHomebrew t = (if take 3 t = ''hb_'' then drop 3 t else t)"

text \<open>
  \<^verbatim>\<open>#validateDefault\<close>. \<open>filterTraits\<close> is the trait test of the compendium
  browser's tab and \<open>sluggify\<close> the system's slug function.
\<close>

definition validateDefault ::
  "(string list \<Rightarrow> (string \<times> bool) list \<Rightarrow> string \<Rightarrow> bool) \<Rightarrow> (string \<Rightarrow> string) \<Rightarrow>
   spell_item \<Rightarrow> spell_filter \<Rightarrow> validation" where
  "validateDefault filterTraits sluggify item spellFilter =
     (let itemTraits = map stripHomebrew (sp_traits item) in
      if \<not> filterTraits itemTraits (ms_traits spellFilter) (ms_conjunction spellFilter)
      then Invalid WrongTraits
      else
        let rarities = cb_rarity spellFilter in
        if rarities \<noteq> [] \<and> sp_rarity item \<notin> set rarities
        then Invalid (DropDataWarning ''rarity'' (Texts rarities) (Text (sp_rarity item)))
        else
          let sources = cb_source spellFilter;
              pubSource = trim (sp_source item)
          in if sources \<noteq> [] \<and> sluggify pubSource \<notin> set sources
             then Invalid (DropDataWarning ''source'' (Text []) (Text pubSource))
             else Valid)"

text \<open>
  The categories computed for the item:
  \<^verbatim>\<open>R.compact([isSpell ? "spell" : null, isCantrip ? "cantrip" : null, ...])\<close>.
\<close>

definition spellCategories :: "spell_item \<Rightarrow> string list" where
  "spellCategories item =
     (let isCantrip = sp_isCantrip item;
          isFocusSpell = sp_isFocusSpell item;
          isRitual = sp_isRitual item;
          isSpell = (\<not> isCantrip \<and> \<not> isFocusSpell \<and> \<not> isRitual)
      in (if isSpell then [''spell''] else []) @
         (if isCantrip then [''cantrip''] else []) @
         (if isFocusSpell then [''focus''] else []) @
         (if isRitual then [''ritual''] else []))"

text \<open>\<^verbatim>\<open>R.intersection(xs, ys)\<close>: the elements of the first list that are in the second.\<close>

definition intersection :: "string list \<Rightarrow> string list \<Rightarrow> string list" where
  "intersection xs ys = filter (\<lambda>x. x \<in> set ys) xs"

text \<open>
  \<^verbatim>\<open>#validateSpell\<close>. The default \<^verbatim>\<open>sort()\<close> of string arrays orders by code unit,
  and \<^verbatim>\<open>R.equals\<close> on the sorted arrays is equality of lists.
\<close>

definition validateSpell ::
  "(string list \<Rightarrow> (string \<times> bool) list \<Rightarrow> string \<Rightarrow> bool) \<Rightarrow> (string \<Rightarrow> string) \<Rightarrow>
   spell_item \<Rightarrow> spell_filter \<Rightarrow> validation" where
  "validateSpell filterTraits sluggify item spellFilter =
     (let itemRank = string_of_nat (sp_rank item);
          filterRanks = cb_rank spellFilter
      in
      if filterRanks \<noteq> [] \<and> itemRank \<notin> set filterRanks
      then Invalid (DropDataWarning ''rank'' (Texts filterRanks) (Text itemRank))
      else
        let filterCategories = cb_category spellFilter;
            sortedFilterCategories = sort filterCategories;
            sortedItemCategories = sort (spellCategories item)
        in
        if filterCategories \<noteq> [] \<and> sortedFilterCategories \<noteq> sortedItemCategories
        then Invalid (DropDataWarning ''categories'' (Texts sortedFilterCategories)
                        (Texts sortedItemCategories))
        else
          let filterTraditions = cb_traditions spellFilter;
              itemTraditions = sp_traditions item
          in
          if filterTraditions \<noteq> [] \<and> intersection filterTraditions itemTraditions = []
          then Invalid (DropDataWarning ''traditions'' (Texts filterTraditions) (Texts itemTraditions))
          else validateDefault filterTraits sluggify item spellFilter)"

text \<open>
  A cantrip of the arcane and occult traditions, and filters that allow cantrips and
  focus spells, cantrips only, and cantrips of the occult or primal traditions.
\<close>

definition arcane_cantrip :: spell_item where
  "arcane_cantrip =
     \<lparr>sp_rank = 1, sp_isCantrip = True, sp_isFocusSpell = False, sp_isRitual = False,
      sp_traditions = [''arcane'', ''occult''], sp_traits = [''cantrip'', ''hb_light''],
      sp_rarity = ''common'', sp_source = ''Player Core''\<rparr>"

definition filter_of :: "string list \<Rightarrow> string list \<Rightarrow> spell_filter" where
  "filter_of categories traditions =
     \<lparr>cb_rank = [], cb_category = categories, cb_traditions = traditions, cb_rarity = [],
      cb_source = [], ms_traits = [], ms_conjunction = ''and''\<rparr>"

section \<open>Accept: reading the row elements\<close>

text \<open>
  An element of the form that carries \<^verbatim>\<open>data-daily\<close>: its dataset, its value and, for
  a combo row, the value of the select inside the same \<^verbatim>\<open>.combo\<close>.
\<close>

record row_element =
  el_dataset :: row_dataset
  el_value :: string
  el_comboSelect :: string

text \<open>
  The value read from a row element in \<^verbatim>\<open>#processDailies\<close>; \<open>None\<close> is the
  \<^verbatim>\<open>continue\<close> for an element that is none of drop, combo, select, input and random.
  \<open>pick\<close> is \<^verbatim>\<open>utils.selectRandomOption\<close>.
\<close>

definition rowValue :: "(row_element \<Rightarrow> string) \<Rightarrow> row_element \<Rightarrow> row_data option" where
  "rowValue pick rowElement =
     (let d = el_dataset rowElement in
      if ds_type d = Drop then Some (RowDrop (ds_uuid d) (el_value rowElement))
      else if ds_type d = Combo then
        let isInput = (ds_input d = Some ''true'');
            selected = (if isInput then trim (el_value rowElement) else el_comboSelect rowElement)
        in Some (RowCombo selected isInput)
      else if ds_type d \<in> {Select, Input} then Some (RowString (trim (el_value rowElement)))
      else if ds_type d = Random then Some (RowString (pick rowElement))
      else None)"

text \<open>
  An object used as an ordered dictionary: \<open>upsert k f new\<close> changes the entry of
  \<open>k\<close> by \<open>f\<close>, or adds \<open>new\<close> under \<open>k\<close> at the end. (Keys are daily keys,
  group names and item ids; none of them is the text of an array index, which an object
  would enumerate first.)
\<close>

fun upsert :: "string \<Rightarrow> ('v \<Rightarrow> 'v) \<Rightarrow> 'v \<Rightarrow> (string \<times> 'v) list \<Rightarrow> (string \<times> 'v) list" where
  "upsert k f new [] = [(k, new)]"
| "upsert k f new ((k', v) # rest) =
     (if k' = k then (k', f v) # rest else (k', v) # upsert k f new rest)"

text \<open>
  The loop over the row elements: \<open>dailies\<close> collects the rows of every daily in the
  order of first appearance, \<open>flags\<close> the values of the elements whose dataset says
  \<^verbatim>\<open>save === "true"\<close>.
\<close>

fun collectRows ::
  "(row_element \<Rightarrow> string) \<Rightarrow> row_element list \<Rightarrow>
   (string \<times> (string \<rightharpoonup> row_data)) list \<times> (string \<rightharpoonup> (string \<rightharpoonup> row_data)) \<Rightarrow>
   (string \<times> (string \<rightharpoonup> row_data)) list \<times> (string \<rightharpoonup> (string \<rightharpoonup> row_data))" where
  "collectRows pick [] acc = acc"
| "collectRows pick (rowElement # rest) (dailies, flags) =
     (case rowValue pick rowElement of
        None \<Rightarrow> collectRows pick rest (dailies, flags)
      | Some row \<Rightarrow>
          let d = el_dataset rowElement;
              dailies' = upsert (ds_daily d) (\<lambda>rows. rows(ds_row d \<mapsto> row))
                           (Map.empty(ds_row d \<mapsto> row)) dailies;
              flags' =
                (if ds_save d = ''true''
                 then flags(ds_daily d \<mapsto>
                        (case flags (ds_daily d) of None \<Rightarrow> Map.empty | Some m \<Rightarrow> m)(ds_row d \<mapsto> row))
                 else flags)
          in collectRows pick rest (dailies', flags'))"

section \<open>Accept: the processing context\<close>

text \<open>
  An item source: its type and name, the values at its property paths (read by
  \<^verbatim>\<open>getProperty\<close>) and its flags of this module (read by \<^verbatim>\<open>getFlagProperty\<close>).
  Values are kept as text; a missing or empty value is falsy.
\<close>

record item_source =
  src_type :: string
  src_name :: string
  src_props :: "(string \<times> string) list"
  src_flags :: "(string \<times> string) list"

definition truthy :: "string option \<Rightarrow> bool" where
  "truthy v = (case v of Some (c # cs) \<Rightarrow> True | _ \<Rightarrow> False)"

definition getProperty :: "item_source \<Rightarrow> string \<Rightarrow> string option" where
  "getProperty source path = map_of (src_props source) path"

definition setProperty :: "item_source \<Rightarrow> string \<Rightarrow> string \<Rightarrow> item_source" where
  "setProperty source path v =
     source\<lparr>src_props := (path, v) # filter (\<lambda>(p, _). p \<noteq> path) (src_props source)\<rparr>"

definition getFlagProperty :: "item_source \<Rightarrow> string \<Rightarrow> string option" where
  "getFlagProperty source key = map_of (src_flags source) key"

definition setFlagProperty :: "item_source \<Rightarrow> string \<Rightarrow> string \<Rightarrow> item_source" where
  "setFlagProperty source key v =
     source\<lparr>src_flags := (key, v) # filter (\<lambda>(k, _). k \<noteq> key) (src_flags source)\<rparr>"

text \<open>
  A rule element, with the mark of this module (\<^verbatim>\<open>MODULE.id in rule\<close>); an item of
  the actor as the callbacks hand it to the helpers.
\<close>

record rule_element =
  rule_body :: string
  rule_owned :: bool

record item_ref =
  item_id :: string
  item_type :: string
  item_rules :: "rule_element list"

text \<open>The value at a path of an item update.\<close>

datatype update_value =
  UpdateText string
| UpdateMissing
| UpdateGrant string string
| UpdateRules "rule_element list"

text \<open>An entry of a message group, and a message group.\<close>

record message_options =
  mo_label :: "string option"
  mo_uuid :: "string option"
  mo_selected :: "string option"
  mo_random :: bool

record message_group =
  mg_label :: "string option"
  mg_order :: int
  mg_messages :: "message_options list"

text \<open>
  The accumulators of one accept cycle. \<open>cx_messageGroups\<close>, \<open>cx_itemsRules\<close>
  and \<open>cx_updatedItems\<close> keep the order of insertion.
\<close>

record accept_context =
  cx_addedItems :: "item_source list"
  cx_deletedItems :: "string list"
  cx_updatedItems :: "(string \<times> (string \<times> update_value) list) list"
  cx_itemsRules :: "(string \<times> rule_element list) list"
  cx_rawMessages :: "(string \<times> int) list"
  cx_messageGroups :: "(string \<times> message_group) list"
  cx_extraFlags :: "string \<rightharpoonup> string"

definition initialContext :: accept_context where
  "initialContext =
     \<lparr>cx_addedItems = [], cx_deletedItems = [], cx_updatedItems = [], cx_itemsRules = [],
      cx_rawMessages = [],
      cx_messageGroups =
        [(''languages'', \<lparr>mg_label = None, mg_order = 80, mg_messages = []\<rparr>),
         (''skills'', \<lparr>mg_label = None, mg_order = 70, mg_messages = []\<rparr>),
         (''resistances'', \<lparr>mg_label = None, mg_order = 60, mg_messages = []\<rparr>),
         (''feats'', \<lparr>mg_label = None, mg_order = 50, mg_messages = []\<rparr>),
         (''spells'', \<lparr>mg_label = None, mg_order = 40, mg_messages = []\<rparr>),
         (''scrolls'', \<lparr>mg_label = None, mg_order = 30, mg_messages = []\<rparr>)],
      cx_extraFlags = Map.empty\<rparr>"

text \<open>
  Modelled from the spec: \<^verbatim>\<open>createUpdateCollection\<close> is defined in another file of
  the module. The spec describes "a mapping of item-id to pending item-update fragments
  (merged, not overwritten, per item)", where "colliding field paths are
  last-write-wins". A fragment is kept as the list of its paths with their values, a
  later entry for a path standing for the earlier one.
\<close>

definition updateItem ::
  "string \<Rightarrow> (string \<times> update_value) list \<Rightarrow> (string \<times> (string \<times> update_value) list) list \<Rightarrow>
   (string \<times> (string \<times> update_value) list) list" where
  "updateItem itemId fragment updatedItems =
     upsert itemId
       (\<lambda>old. filter (\<lambda>(p, _). p \<notin> fst ` set fragment) old @ fragment) fragment updatedItems"

text \<open>
  \<^verbatim>\<open>getRules(item)\<close>: the list kept for the item, or else the rules of its source
  without those that carry the module's mark, which is then kept.
\<close>

definition getRules :: "accept_context \<Rightarrow> item_ref \<Rightarrow> accept_context \<times> rule_element list" where
  "getRules cx item =
     (case map_of (cx_itemsRules cx) (item_id item) of
        Some existing \<Rightarrow> (cx, existing)
      | None \<Rightarrow>
          let rules = filter (\<lambda>r. \<not> rule_owned r) (item_rules item)
          in (cx\<lparr>cx_itemsRules := cx_itemsRules cx @ [(item_id item, rules)]\<rparr>, rules))"

definition setRules :: "accept_context \<Rightarrow> string \<Rightarrow> rule_element list \<Rightarrow> accept_context" where
  "setRules cx itemId rules =
     cx\<lparr>cx_itemsRules := map (\<lambda>(k, v). if k = itemId then (k, rules) else (k, v)) (cx_itemsRules cx)\<rparr>"

text \<open>
  What a \<^verbatim>\<open>process\<close> callback does with the helpers it is given: one constructor per
  helper.
\<close>

datatype action =
  MessagesAdd string message_options
| MessagesAddGroup string "string option" "int option"
| MessagesAddRaw string "int option"
| UpdateItem string "(string \<times> update_value) list"
| AddItem item_source
| AddFeat item_source "item_ref option"
| DeleteItem item_ref
| RemoveRule item_ref "rule_element \<Rightarrow> bool"
| AddRule item_ref rule_element
| SetExtraFlags "string \<rightharpoonup> string"

fun applyAction :: "accept_context \<Rightarrow> action \<Rightarrow> accept_context" where
  "applyAction cx (MessagesAdd groupName message) =
     cx\<lparr>cx_messageGroups :=
       upsert groupName (\<lambda>g. g\<lparr>mg_messages := mg_messages g @ [message]\<rparr>)
         \<lparr>mg_label = None, mg_order = 0, mg_messages = [message]\<rparr> (cx_messageGroups cx)\<rparr>"
| "applyAction cx (MessagesAddGroup name label order) =
     cx\<lparr>cx_messageGroups :=
       upsert name (\<lambda>g. g\<lparr>mg_label := (case mg_label g of None \<Rightarrow> label | Some l \<Rightarrow> Some l)\<rparr>)
         \<lparr>mg_label = label, mg_order = (case order of None \<Rightarrow> 0 | Some n \<Rightarrow> n), mg_messages = []\<rparr>
         (cx_messageGroups cx)\<rparr>"
| "applyAction cx (MessagesAddRaw message order) =
     cx\<lparr>cx_rawMessages := cx_rawMessages cx @ [(message, case order of None \<Rightarrow> 1 | Some n \<Rightarrow> n)]\<rparr>"
| "applyAction cx (UpdateItem itemId fragment) =
     cx\<lparr>cx_updatedItems := updateItem itemId fragment (cx_updatedItems cx)\<rparr>"
| "applyAction cx (AddItem source) = cx\<lparr>cx_addedItems := cx_addedItems cx @ [source]\<rparr>"
| "applyAction cx (AddFeat source parent) =
     (let source' =
            (case parent of
               None \<Rightarrow> source
             | Some p \<Rightarrow>
                 if item_type p = ''feat''
                 then setFlagProperty
                        (setProperty (setProperty source ''flags.pf2e.grantedBy.id'' (item_id p))
                           ''flags.pf2e.grantedBy.onDelete'' ''cascade'')
                        ''grantedBy'' (item_id p)
                 else source)
      in cx\<lparr>cx_addedItems := cx_addedItems cx @ [source']\<rparr>)"
| "applyAction cx (DeleteItem item) = cx\<lparr>cx_deletedItems := cx_deletedItems cx @ [item_id item]\<rparr>"
| "applyAction cx (RemoveRule item signature) =
     (let (cx', rules) = getRules cx item
      in setRules cx' (item_id item) (filter (\<lambda>r. \<not> signature r) rules))"
| "applyAction cx (AddRule item source) =
     (let (cx', rules) = getRules cx item
      in setRules cx' (item_id item) (rules @ [source\<lparr>rule_owned := True\<rparr>]))"
| "applyAction cx (SetExtraFlags data) = cx\<lparr>cx_extraFlags := cx_extraFlags cx ++ data\<rparr>"

text \<open>
  How a call of \<^verbatim>\<open>daily.process\<close> ends: it returns (a value, or a promise that is
  fulfilled), it throws during the call, or it returns a promise that is rejected, as an
  \<^verbatim>\<open>async\<close> callback does when an exception arises in it. A callback is then a
  function from the rows it is given to the helper calls it makes and the way it ends.
\<close>

datatype outcome = Returned | Threw | Rejected

type_synonym process = "(string \<rightharpoonup> row_data) \<Rightarrow> action list \<times> outcome"

text \<open>What the user and the stores see of an accept.\<close>

datatype effect =
  Warn string
| ErrorNotification string
| ConsoleError string
| CreateEmbeddedDocuments "item_source list"
| UpdateEmbeddedDocuments "(string \<times> (string \<times> update_value) list) list"
| DeleteEmbeddedDocuments "string list"
| UpdateFlag flags
| ChatMessageCreate string

text \<open>
  The callback mapped over \<^verbatim>\<open>Object.values(dailies)\<close>, the dailies taken one after the
  other. The \<^verbatim>\<open>try\<close> around \<^verbatim>\<open>return daily.process(...)\<close> catches what the call throws:
  the error is notified and logged with the daily's key, and the map goes on. A promise
  the call returns is handed to \<^verbatim>\<open>Promise.all\<close> as it is; the result says whether one
  of them is rejected. A daily that the catalog does not know makes \<^verbatim>\<open>daily.key\<close> in
  the \<^verbatim>\<open>catch\<close> block throw, after the notification.
\<close>

fun runCallbacks ::
  "(string \<rightharpoonup> process) \<Rightarrow> (string \<times> (string \<rightharpoonup> row_data)) list \<Rightarrow> accept_context \<Rightarrow> effect list \<Rightarrow> bool \<Rightarrow>
   (js_error \<times> effect list) + (accept_context \<times> effect list \<times> bool)" where
  "runCallbacks catalog [] cx log rejected = Inr (cx, log, rejected)"
| "runCallbacks catalog ((key, rows) # rest) cx log rejected =
     (case catalog key of
        None \<Rightarrow> Inl (TypeError, log @ [ErrorNotification ''error.unexpected''])
      | Some process \<Rightarrow>
          (case process rows of
             (actions, Returned) \<Rightarrow>
               runCallbacks catalog rest (foldl applyAction cx actions) log rejected
           | (actions, Threw) \<Rightarrow>
               runCallbacks catalog rest (foldl applyAction cx actions)
                 (log @ [ErrorNotification ''error.unexpected'', ConsoleError key]) rejected
           | (actions, Rejected) \<Rightarrow>
               runCallbacks catalog rest (foldl applyAction cx actions) log True))"

section \<open>Accept: reconciliation and commit\<close>

text \<open>
  The functions of the host and of other modules that the rest of
  \<^verbatim>\<open>#processDailies\<close> calls: the random choice of a random row, \<^verbatim>\<open>randomID()\<close>, the
  two statistics of the actor, the id the item store gives to the n-th item of a created
  batch, the slug of a feat name, the module's \<^verbatim>\<open>localize\<close>, \<^verbatim>\<open>game.i18n.localize\<close>,
  the label of a message group without a label of its own
  (\<^verbatim>\<open>localizeIfExist("message.groups", type) ?? localize("message.gained", {type})\<close>) and
  \<^verbatim>\<open>createChatLink\<close>.
\<close>

record statistic =
  st_mod :: int
  st_attribute :: string
  st_rank :: "nat option"
  st_slug :: string

record host =
  h_selectRandomOption :: "row_element \<Rightarrow> string"
  h_randomID :: string
  h_highestSpellcasting :: "(string option \<times> statistic) option"
  h_highestSynthetic :: "statistic option"
  h_createdId :: "nat \<Rightarrow> string"
  h_sluggify :: "string \<Rightarrow> string"
  h_localize :: "string \<Rightarrow> string"
  h_i18nLocalize :: "string \<Rightarrow> string"
  h_groupLabel :: "string \<Rightarrow> string"
  h_createChatLink :: "string \<Rightarrow> string option \<Rightarrow> string"

text \<open>
  The body of the loop over the added sources: the source afterwards, and whether it was
  tagged as an orphan spell. The path read for the casting location is the one the
  source reads, \<^verbatim>\<open>"system.localtion.value"\<close>.
\<close>

definition tagSource :: "string \<Rightarrow> item_source \<Rightarrow> item_source \<times> bool" where
  "tagSource entryIdentifier source =
     (let source1 = (if \<not> truthy (getProperty source ''system.temporary'')
                     then setFlagProperty source ''temporary'' ''true'' else source)
      in if src_type source1 = ''spell'' \<and>
            \<not> truthy (getProperty source1 ''system.localtion.value'') \<and>
            \<not> truthy (getFlagProperty source1 ''identifier'')
         then (setFlagProperty source1 ''identifier'' entryIdentifier, True)
         else (source1, False))"

text \<open>
  Modelled from the spec: \<^verbatim>\<open>utils.createSpellcastingEntrySource\<close> is defined in
  another file of the module. The spec has the synthesized entry be an "innate"
  spellcasting entry "tagged with the same synthetic identifier"; the entry created
  from it is recognised by \<^verbatim>\<open>getFlag(item, "identifier")\<close>. The other arguments are
  kept as properties of the source.
\<close>

definition createSpellcastingEntrySource ::
  "string \<Rightarrow> string \<Rightarrow> string \<Rightarrow> string \<Rightarrow> string \<Rightarrow> nat \<Rightarrow> string option \<Rightarrow> item_source" where
  "createSpellcastingEntrySource name identifier category tradition attribute proficiencyRank
     proficiencySlug =
     \<lparr>src_type = ''spellcastingEntry'', src_name = name,
      src_props =
        [(''system.prepared.value'', category), (''system.tradition.value'', tradition),
         (''system.ability.value'', attribute),
         (''system.proficiency.value'', string_of_nat proficiencyRank),
         (''system.proficiency.slug'', case proficiencySlug of None \<Rightarrow> [] | Some s \<Rightarrow> s),
         (''system.showSlotlessLevels.value'', ''false'')],
      src_flags = [(''identifier'', identifier)]\<rparr>"

text \<open>
  The entry synthesized when there are orphan spells: none when the actor has neither
  statistic.
\<close>

definition synthesizeEntry :: "host \<Rightarrow> item_source option" where
  "synthesizeEntry h =
     (let highestEntry = h_highestSpellcasting h;
          highestSynthetic = h_highestSynthetic h;
          (tradition, statistic, synthetic) =
            (case highestEntry of
               Some (tr, st) \<Rightarrow>
                 (case highestSynthetic of
                    None \<Rightarrow> (tr, Some st, False)
                  | Some syn \<Rightarrow>
                      if st_mod st \<ge> st_mod syn then (tr, Some st, False)
                      else (None, Some syn, True))
             | None \<Rightarrow>
                 (case highestSynthetic of
                    Some syn \<Rightarrow> (None, Some syn, True)
                  | None \<Rightarrow> (None, None, False)))
      in case statistic of
           None \<Rightarrow> None
         | Some st \<Rightarrow>
             Some (setFlagProperty
                     (createSpellcastingEntrySource (h_localize h ''spellEntry.name'') (h_randomID h)
                        ''innate'' (case tradition of None \<Rightarrow> ''arcane'' | Some t \<Rightarrow> t)
                        (st_attribute st) (case st_rank st of None \<Rightarrow> 1 | Some r \<Rightarrow> r)
                        (if synthetic then Some (st_slug st) else None))
                     ''temporary'' ''true''))"

text \<open>
  The sources handed to the item store: every added source after the tagging loop, and
  the synthesized entry at the end when a source was tagged and the actor has a
  statistic.
\<close>

definition reconcileAdded :: "host \<Rightarrow> item_source list \<Rightarrow> item_source list" where
  "reconcileAdded h addedItems =
     (let tagged = map (tagSource (h_randomID h)) addedItems;
          hasOrphanSpells = list_ex snd tagged;
          sources = map fst tagged
      in if hasOrphanSpells
         then (case synthesizeEntry h of None \<Rightarrow> sources | Some entry \<Rightarrow> sources @ [entry])
         else sources)"

text \<open>An item the store created: its id and its source.\<close>

record created_item =
  ci_id :: string
  ci_source :: item_source

definition createEmbeddedDocuments :: "host \<Rightarrow> item_source list \<Rightarrow> created_item list" where
  "createEmbeddedDocuments h sources =
     map (\<lambda>(n, source). \<lparr>ci_id = h_createdId h n, ci_source = source\<rparr>) (enumerate 0 sources)"

text \<open>
  The body of the second loop over the created items: a feat with a grantor registers
  itself in the grantor's item grants; a spellcasting entry with an identifier takes in
  every created spell with the same identifier.
\<close>

definition linkItem ::
  "host \<Rightarrow> created_item list \<Rightarrow> (string \<times> (string \<times> update_value) list) list \<Rightarrow> created_item \<Rightarrow>
   (string \<times> (string \<times> update_value) list) list" where
  "linkItem h items updatedItems item =
     (if src_type (ci_source item) = ''feat'' then
        (case getFlagProperty (ci_source item) ''grantedBy'' of
           Some (c # cs) \<Rightarrow>
             updateItem (c # cs)
               [(''flags.pf2e.itemGrants.'' @ h_sluggify h (src_name (ci_source item)),
                 UpdateGrant (ci_id item) ''detach'')]
               updatedItems
         | _ \<Rightarrow> updatedItems)
      else if src_type (ci_source item) = ''spellcastingEntry'' then
        (case getFlagProperty (ci_source item) ''identifier'' of
           Some (c # cs) \<Rightarrow>
             foldl
               (\<lambda>acc spell.
                  updateItem (ci_id spell)
                    [(''system.location.value'', UpdateText (ci_id item)),
                     (''system.location.heightenedLevel'',
                      case getFlagProperty (ci_source spell) ''rank'' of
                        None \<Rightarrow> UpdateMissing | Some r \<Rightarrow> UpdateText r)]
                    acc)
               updatedItems
               (filter
                  (\<lambda>spell. src_type (ci_source spell) = ''spell'' \<and>
                     getFlagProperty (ci_source spell) ''identifier'' = Some (c # cs))
                  items)
         | _ \<Rightarrow> updatedItems)
      else updatedItems)"

text \<open>
  The update of the actor's flags: the saved rows of every daily, overlaid with the four
  fixed entries (\<^verbatim>\<open>{...flags, extra, rested, schema, addedItems}\<close>).
\<close>

definition flagUpdate ::
  "(string \<rightharpoonup> (string \<rightharpoonup> row_data)) \<Rightarrow> (string \<rightharpoonup> string) \<Rightarrow> string list \<Rightarrow> flags" where
  "flagUpdate savedRows extraFlags addedItemIds =
     (\<lambda>k. map_option FlagRows (savedRows k))
       (''extra'' \<mapsto> FlagExtra extraFlags, ''rested'' \<mapsto> FlagBool False,
        ''schema'' \<mapsto> FlagString ACTOR_DAILY_SCHEMA, ''addedItems'' \<mapsto> FlagIds addedItemIds)"

section \<open>Accept: the chat summary\<close>

text \<open>
  The order of a section of the summary: a number, or \<^verbatim>\<open>Infinity\<close> for the preface.
  \<open>notAfter a b\<close> says that \<^verbatim>\<open>b.order - a.order\<close> is not positive: it is negative
  or zero, or not a number (for two infinite orders), which \<^verbatim>\<open>sort\<close> takes for zero.
\<close>

datatype priority = Finite int | Infinity

record chat_group =
  cg_message :: string
  cg_order :: priority

definition notAfter :: "chat_group \<Rightarrow> chat_group \<Rightarrow> bool" where
  "notAfter a b =
     (case (cg_order a, cg_order b) of
        (Finite x, Finite y) \<Rightarrow> y - x \<le> 0
      | (Infinity, _) \<Rightarrow> True
      | (Finite x, Infinity) \<Rightarrow> False)"

text \<open>The paragraph of one entry of a message group.\<close>

definition renderEntry :: "host \<Rightarrow> message_options \<Rightarrow> string" where
  "renderEntry h messageOptions =
     (let label = map_option trim (mo_label messageOptions)
      in ''<p>'' @
         (if truthy (mo_uuid messageOptions)
          then h_createChatLink h (the (mo_uuid messageOptions)) label
          else if truthy label then '' '' @ the label else []) @
         (if truthy (mo_selected messageOptions)
          then ''<i class='' @ [CHR 0x22] @ ''fa-solid fa-caret-right'' @ [CHR 0x22] @ ''></i>'' @
               the (mo_selected messageOptions)
          else []) @
         (if mo_random messageOptions
          then ''<i class='' @ [CHR 0x22] @ ''fa-solid fa-dice-d20'' @ [CHR 0x22] @ ''></i>''
          else []) @
         ''</p>'')"

text \<open>
  The section of a message group that has entries; \<open>None\<close> is the \<^verbatim>\<open>continue\<close>
  for a group without entries.
\<close>

definition renderGroup :: "host \<Rightarrow> string \<times> message_group \<Rightarrow> chat_group option" where
  "renderGroup h entry =
     (let (type, g) = entry in
      if mg_messages g = [] then None
      else
        let groupLabel = (case mg_label g of Some (c # cs) \<Rightarrow> h_i18nLocalize h (c # cs)
                          | _ \<Rightarrow> h_groupLabel h type)
        in Some \<lparr>cg_message = ''<p><strong>'' @ groupLabel @ ''</strong></p>'' @
                                concat (map (renderEntry h) (mg_messages g)),
                 cg_order = Finite (mg_order g)\<rparr>)"

text \<open>
  The sections of the summary in the order they are posted in: the raw messages, then
  the groups with entries in the order of the object's keys, the preface put in front,
  and the whole sorted with \<^verbatim>\<open>(a, b) => b.order - a.order\<close>.
\<close>

definition chatSections :: "host \<Rightarrow> accept_context \<Rightarrow> chat_group list" where
  "chatSections h cx =
     (let chatGroups =
            map (\<lambda>(message, order). \<lparr>cg_message = ''<p>'' @ message @ ''</p>'', cg_order = Finite order\<rparr>)
              (cx_rawMessages cx) @
            List.map_filter (renderGroup h) (cx_messageGroups cx);
          preface = h_localize h (if chatGroups \<noteq> [] then ''message.changes'' else ''message.noChanges'')
      in stableSort notAfter (\<lparr>cg_message = preface, cg_order = Infinity\<rparr> # chatGroups))"

definition chatContent :: "host \<Rightarrow> accept_context \<Rightarrow> string" where
  "chatContent h cx =
     ''<div class='' @ [CHR 0x22] @ ''pf2e-dailies-summary'' @ [CHR 0x22] @ ''>'' @
     join ''<hr />'' (map cg_message (chatSections h cx)) @ ''</div>''"

section \<open>Accept: \<^verbatim>\<open>#processDailies\<close> and \<^verbatim>\<open>#onAccept\<close>\<close>

text \<open>
  Everything after the callbacks, from the accumulators they leave and the saved rows:
  the calls to the item store, the flag update and the chat message, in this order.
\<close>

definition commit ::
  "host \<Rightarrow> (string \<rightharpoonup> (string \<rightharpoonup> row_data)) \<Rightarrow> accept_context \<Rightarrow> effect list" where
  "commit h savedRows cx =
     (let addedItems = reconcileAdded h (cx_addedItems cx);
          items = (if addedItems \<noteq> [] then createEmbeddedDocuments h addedItems else []);
          addedItemIds = map ci_id items;
          updated1 = foldl (linkItem h items) (cx_updatedItems cx) items;
          updated2 = foldl (\<lambda>acc (itemId, rules). updateItem itemId [(''system.rules'', UpdateRules rules)] acc)
                       updated1 (cx_itemsRules cx)
      in (if addedItems \<noteq> [] then [CreateEmbeddedDocuments addedItems] else []) @
         (if updated2 \<noteq> [] then [UpdateEmbeddedDocuments updated2] else []) @
         (if cx_deletedItems cx \<noteq> [] then [DeleteEmbeddedDocuments (cx_deletedItems cx)] else []) @
         [UpdateFlag (flagUpdate savedRows (cx_extraFlags cx) addedItemIds),
          ChatMessageCreate (chatContent h cx)])"

text \<open>
  \<^verbatim>\<open>#processDailies\<close>: \<open>Inr\<close> with what it did when it runs to its end, \<open>Inl\<close>
  with the error and what it had done when it throws. \<^verbatim>\<open>await Promise.all(...)\<close>
  throws when one of the promises is rejected, and nothing after it runs.
\<close>

definition processDailies ::
  "host \<Rightarrow> (string \<rightharpoonup> process) \<Rightarrow> row_element list \<Rightarrow> (js_error \<times> effect list) + effect list" where
  "processDailies h catalog rowElements =
     (let (dailies, savedRows) = collectRows (h_selectRandomOption h) rowElements ([], Map.empty)
      in case runCallbacks catalog dailies initialContext [] False of
           Inl failure \<Rightarrow> Inl failure
         | Inr (cx, log, rejected) \<Rightarrow>
             if rejected then Inl (UnhandledRejection, log)
             else Inr (log @ commit h savedRows cx))"

text \<open>
  The form: its row elements, the rows whose label is marked empty (by daily and row),
  whether it is locked and whether it is closed.
\<close>

record form =
  f_rowElements :: "row_element list"
  f_emptyLabels :: "(string \<times> string) list"
  f_locked :: bool
  f_closed :: bool

text \<open>
  \<^verbatim>\<open>#onAccept\<close>: the form afterwards and what was done. The elements matched by
  \<^verbatim>\<open>[data-empty='false']\<close> are the row elements whose dataset says so.
\<close>

definition onAccept :: "host \<Rightarrow> (string \<rightharpoonup> process) \<Rightarrow> form \<Rightarrow> form \<times> effect list" where
  "onAccept h catalog html =
     (let emptyRows = filter (\<lambda>el. ds_empty (el_dataset el) = ''false'' \<and> trim (el_value el) = [])
                        (f_rowElements html)
      in if emptyRows \<noteq> []
         then (html\<lparr>f_emptyLabels := map (\<lambda>el. (ds_daily (el_dataset el), ds_row (el_dataset el))) emptyRows\<rparr>,
               [Warn ''interface.error.empty''])
         else
           (case processDailies h catalog (f_rowElements html) of
              Inl (e, done) \<Rightarrow> (html\<lparr>f_emptyLabels := [], f_locked := True\<rparr>, done)
            | Inr done \<Rightarrow> (html\<lparr>f_emptyLabels := [], f_locked := True, f_closed := True\<rparr>, done)))"

section \<open>Concrete characters\<close>

text \<open>A character last prepared under schema 2.0.0, and one already at 3.0.0.\<close>

definition actor_2_0_0 :: actor where
  "actor_2_0_0 =
     \<lparr>moduleFlags = Some [''schema'' \<mapsto> FlagString ''2.0.0'', ''rested'' \<mapsto> FlagBool True],
      familiar = None, staves = False\<rparr>"

definition actor_3_0_0 :: actor where
  "actor_3_0_0 =
     \<lparr>moduleFlags = Some [''schema'' \<mapsto> FlagString ''3.0.0'', ''rested'' \<mapsto> FlagBool True],
      familiar = None, staves = False\<rparr>"

section \<open>Uniqueness resolver: auxiliary notions and concrete groups\<close>

text \<open>A select element has an option selected.\<close>

definition inRange :: "select_element \<Rightarrow> bool" where
  "inRange el = (0 \<le> selectedIndex el \<and> selectedIndex el < int (length (sel_options el)))"

text \<open>What the selection of an element claims: its unique-value, unless exempt or empty.\<close>

definition claimOf :: "select_element \<Rightarrow> string set" where
  "claimOf el = (case selectedUnique el of None \<Rightarrow> {} | Some v \<Rightarrow> if v \<noteq> [] then {v} else {})"

text \<open>The selection of an element conflicts with a claimed set.\<close>

definition conflicting :: "string set \<Rightarrow> select_element \<Rightarrow> bool" where
  "conflicting U el = optionExists U (sel_options el) (nat (selectedIndex el))"

text \<open>The claim of an element as a list of at most one value.\<close>

definition claimList :: "select_element \<Rightarrow> string list" where
  "claimList el = (case selectedUnique el of None \<Rightarrow> [] | Some v \<Rightarrow> if v \<noteq> [] then [v] else [])"

text \<open>
  Two selects on the same two options, for some choices of options and selections.
\<close>

definition blank_or_a :: "select_option list" where
  "blank_or_a =
     [\<lparr>opt_value = [], data_unique = None, data_skipUnique = None, opt_disabled = False\<rparr>,
      \<lparr>opt_value = ''a'', data_unique = None, data_skipUnique = None, opt_disabled = False\<rparr>]"

definition a_or_b :: "select_option list" where
  "a_or_b =
     [\<lparr>opt_value = ''a'', data_unique = None, data_skipUnique = None, opt_disabled = False\<rparr>,
      \<lparr>opt_value = ''b'', data_unique = None, data_skipUnique = None, opt_disabled = False\<rparr>]"

definition both_blank :: "select_element list" where
  "both_blank = [\<lparr>selectedIndex = 0, sel_options = blank_or_a\<rparr>,
                 \<lparr>selectedIndex = 0, sel_options = blank_or_a\<rparr>]"

definition both_on_a :: "select_element list" where
  "both_on_a = [\<lparr>selectedIndex = 0, sel_options = a_or_b\<rparr>,
                \<lparr>selectedIndex = 0, sel_options = a_or_b\<rparr>]"

definition on_a_and_b :: "select_element list" where
  "on_a_and_b = [\<lparr>selectedIndex = 0, sel_options = a_or_b\<rparr>,
                 \<lparr>selectedIndex = 1, sel_options = a_or_b\<rparr>]"

section \<open>Template builder: a concrete daily\<close>

text \<open>
  A daily with a select row, a random row and a combo row, all without options, and a
  character without flags.
\<close>

definition row_without_options :: "row_type \<Rightarrow> string \<Rightarrow> daily_row" where
  "row_without_options kind slug =
     \<lparr>row_slug = slug, row_kind = kind, row_label = None, row_condition = None,
      row_order = None, row_save = None, row_empty = None, row_options = [],
      row_unique = None, row_filter_type = Feat, row_note = None, row_message = []\<rparr>"

definition daily_without_options :: prepared_daily where
  "daily_without_options =
     \<lparr>daily_key = ''tome'', daily_label = ''Tome'',
      daily_rows = [row_without_options Select ''first'', row_without_options Random ''second'',
                    row_without_options Combo ''third'']\<rparr>"

definition fresh_actor :: actor where
  "fresh_actor = \<lparr>moduleFlags = None, familiar = None, staves = False\<rparr>"

section \<open>Accept: a concrete host and concrete forms\<close>

text \<open>
  A host for concrete runs: the random choice takes the element's value, created items
  are numbered, and the localisation functions leave their key as it is. The actor has a
  spellcasting statistic.
\<close>

definition plain_host :: host where
  "plain_host =
     \<lparr>h_selectRandomOption = el_value, h_randomID = ''entry0'',
      h_highestSpellcasting =
        Some (Some ''occult'', \<lparr>st_mod = 7, st_attribute = ''cha'', st_rank = Some 2, st_slug = ''occult''\<rparr>),
      h_highestSynthetic = None,
      h_createdId = (\<lambda>n. ''item'' @ string_of_nat n), h_sluggify = id, h_localize = id,
      h_i18nLocalize = id, h_groupLabel = id,
      h_createChatLink = (\<lambda>uuid label. ''@UUID['' @ uuid @ '']'')\<rparr>"

text \<open>A row element by type, daily, row, save, empty and value.\<close>

definition element_of ::
  "row_type \<Rightarrow> string \<Rightarrow> string \<Rightarrow> string \<Rightarrow> string \<Rightarrow> string \<Rightarrow> row_element" where
  "element_of kind daily row save exempt v =
     \<lparr>el_dataset = \<lparr>ds_daily = daily, ds_type = kind, ds_row = row, ds_save = save,
                     ds_empty = exempt, ds_input = None, ds_uuid = None, ds_droptype = None\<rparr>,
      el_value = v, el_comboSelect = []\<rparr>"

text \<open>A callback that adds a message to the skills group and returns.\<close>

definition quiet_process :: process where
  "quiet_process rows =
     ([MessagesAdd ''skills'' \<lparr>mo_label = Some ''Athletics'', mo_uuid = None, mo_selected = None,
                               mo_random = False\<rparr>], Returned)"

text \<open>A form with one required select row that is blank.\<close>

definition blank_form :: form where
  "blank_form =
     \<lparr>f_rowElements = [element_of Select ''skill'' ''first'' ''true'' ''false'' '' ''],
      f_emptyLabels = [], f_locked = False, f_closed = False\<rparr>"

text \<open>
  A form of one daily with a saved select row, an input row that is not saved, an alert
  row and a notify row.
\<close>

definition mixed_rows :: "row_element list" where
  "mixed_rows =
     [element_of Select ''skill'' ''first'' ''true'' ''false'' ''athletics'',
      element_of Input ''skill'' ''second'' ''false'' ''true'' ''a note'',
      element_of Alert ''skill'' ''third'' ''false'' ''false'' ''beware'',
      element_of Notify ''skill'' ''fourth'' ''true'' ''true'' ''hello'']"

section \<open>Accept: the chat summary, auxiliary notions\<close>

text \<open>The order of a section as a number (the preface's order is not one).\<close>

definition orderValue :: "chat_group \<Rightarrow> int" where
  "orderValue s = (case cg_order s of Finite n \<Rightarrow> n | Infinity \<Rightarrow> 0)"

text \<open>
  The accumulators after callbacks have added an entry to the feats group, an entry to
  the skills group, and a raw message without an order.
\<close>

definition summary_context :: accept_context where
  "summary_context =
     foldl applyAction initialContext
       [MessagesAdd ''feats'' \<lparr>mo_label = Some ''Toughness'', mo_uuid = None, mo_selected = None,
                               mo_random = False\<rparr>,
        MessagesAdd ''skills'' \<lparr>mo_label = Some ''Athletics'', mo_uuid = None, mo_selected = None,
                                mo_random = False\<rparr>,
        MessagesAddRaw ''rested'' None]"

section \<open>Accept: concrete callbacks\<close>

text \<open>
  A spell that is already placed in a spellcasting entry of the actor, added by a
  callback that returns.
\<close>

definition located_spell :: item_source where
  "located_spell =
     \<lparr>src_type = ''spell'', src_name = ''Fireball'',
      src_props = [(''system.location.value'', ''wizard-entry'')],
      src_flags = [(''rank'', ''3'')]\<rparr>"

definition spell_process :: process where
  "spell_process rows = ([AddItem located_spell], Returned)"

text \<open>The sources of the created batches and the item updates among the effects.\<close>

definition createdSources :: "effect list \<Rightarrow> item_source list list" where
  "createdSources effects =
     List.map_filter (\<lambda>e. case e of CreateEmbeddedDocuments sources \<Rightarrow> Some sources | _ \<Rightarrow> None) effects"

definition itemUpdates :: "effect list \<Rightarrow> (string \<times> (string \<times> update_value) list) list list" where
  "itemUpdates effects =
     List.map_filter (\<lambda>e. case e of UpdateEmbeddedDocuments updates \<Rightarrow> Some updates | _ \<Rightarrow> None) effects"

text \<open>
  A callback that ends in a rejected promise, one that throws during the call, and one
  that adds an item and returns; a form with one select row for each of two dailies.
\<close>

definition rejecting_process :: process where
  "rejecting_process rows = ([], Rejected)"

definition throwing_process :: process where
  "throwing_process rows = ([], Threw)"

definition adding_process :: process where
  "adding_process rows =
     ([AddItem \<lparr>src_type = ''feat'', src_name = ''Toughness'', src_props = [], src_flags = []\<rparr>],
      Returned)"

definition two_dailies :: "row_element list" where
  "two_dailies =
     [element_of Select ''skill'' ''first'' ''true'' ''false'' ''athletics'',
      element_of Select ''feat'' ''first'' ''true'' ''false'' ''toughness'']"

text \<open>The kinds of effects in the order they happen.\<close>

fun effectKind :: "effect \<Rightarrow> string" where
  "effectKind (Warn s) = ''warn''"
| "effectKind (ErrorNotification s) = ''error''"
| "effectKind (ConsoleError k) = ''log '' @ k"
| "effectKind (CreateEmbeddedDocuments s) = ''create''"
| "effectKind (UpdateEmbeddedDocuments u) = ''update''"
| "effectKind (DeleteEmbeddedDocuments d) = ''delete''"
| "effectKind (UpdateFlag f) = ''flags''"
| "effectKind (ChatMessageCreate c) = ''chat''"

section \<open>Accept: auxiliary notions for the general results\<close>

text \<open>
  The helper calls of all callbacks in the order of the dailies, and the notifications
  and log lines for the callbacks that throw during the call.
\<close>

definition allActions ::
  "(string \<rightharpoonup> process) \<Rightarrow> (string \<times> (string \<rightharpoonup> row_data)) list \<Rightarrow> action list" where
  "allActions catalog dailies =
     concat (map (\<lambda>(key, rows). case catalog key of None \<Rightarrow> [] | Some process \<Rightarrow> fst (process rows)) dailies)"

definition thrownLog ::
  "(string \<rightharpoonup> process) \<Rightarrow> (string \<times> (string \<rightharpoonup> row_data)) list \<Rightarrow> effect list" where
  "thrownLog catalog dailies =
     concat (map (\<lambda>(key, rows).
                    case catalog key of
                      None \<Rightarrow> []
                    | Some process \<Rightarrow>
                        if snd (process rows) = Threw
                        then [ErrorNotification ''error.unexpected'', ConsoleError key] else [])
               dailies)"

text \<open>Every daily is in the catalog and no callback ends in a rejected promise.\<close>

definition noneRejected ::
  "(string \<rightharpoonup> process) \<Rightarrow> (string \<times> (string \<rightharpoonup> row_data)) list \<Rightarrow> bool" where
  "noneRejected catalog dailies =
     list_all (\<lambda>(key, rows). case catalog key of None \<Rightarrow> False
                                | Some process \<Rightarrow> snd (process rows) \<noteq> Rejected) dailies"

text \<open>The casting location that a list of item updates gives to an item.\<close>

definition locationOf :: "(string \<times> (string \<times> update_value) list) list \<Rightarrow> string \<Rightarrow> update_value option" where
  "locationOf updates itemId =
     (case map_of updates itemId of
        None \<Rightarrow> None
      | Some fragment \<Rightarrow> map_of fragment ''system.location.value'')"

text \<open>The accumulators after two spells without location and identifier were added.\<close>

definition two_orphans :: accept_context where
  "two_orphans =
     foldl applyAction initialContext
       [AddItem \<lparr>src_type = ''spell'', src_name = ''Light'', src_props = [], src_flags = [(''rank'', ''1'')]\<rparr>,
        AddItem \<lparr>src_type = ''spell'', src_name = ''Fear'', src_props = [], src_flags = [(''rank'', ''2'')]\<rparr>]"

chapter \<open>Properties\<close>

section \<open>Migration gate\<close>

lemma isNewerVersion_3_2: "isNewerVersion ''3.0.0'' ''2.0.0''"
  by (simp add: isNewerVersion_def parse_number_def)

lemma isNewerVersion_3_3: "\<not> isNewerVersion ''3.0.0'' ''3.0.0''"
  by (simp add: isNewerVersion_def parse_number_def)

lemma migrationLoop_reset_kept:
  "fst (migrationLoop newer loc a s catalog (True, msgs))"
  by (induction catalog arbitrary: msgs) (simp_all add: Let_def)

lemma migrationLoop_reset_found:
  "\<exists>m\<in>set catalog. newer (schema m) s \<and> reset m = Some True \<Longrightarrow>
   fst (migrationLoop newer loc a s catalog (rst, msgs))"
proof (induction catalog arbitrary: rst msgs)
  case Nil
  then show ?case by simp
next
  case (Cons m ms)
  show ?case
  proof (cases "newer (schema m) s \<and> reset m = Some True")
    case True
    then show ?thesis by (simp add: Let_def migrationLoop_reset_kept)
  next
    case False
    with Cons.prems have "\<exists>m\<in>set ms. newer (schema m) s \<and> reset m = Some True" by auto
    then show ?thesis using Cons.IH by (simp add: Let_def)
  qed
qed

text \<open>
  C3, as stated, fails: after the gate has run on a character stored at "2.0.0", the
  module's flags are cleared, and the schema flag is cleared with them; it is not
  "3.0.0".
\<close>

theorem migration_reset_counterexample:
  "moduleFlags (fst (migration isNewerVersion id ''reset'' actor_2_0_0)) = None \<and>
   getSchemaFlag (fst (migration isNewerVersion id ''reset'' actor_2_0_0)) \<noteq> ''3.0.0''"
  by (simp add: migration_def migrationWith_def MIGRATIONS_def actor_2_0_0_def hasModuleFlag_def
      getSchemaFlag_def ACTOR_DAILY_SCHEMA_def isNewerVersion_3_2 Let_def unsetMofuleFlag_def
      List.map_filter_def)

text \<open>
  C3 (amended): for every character that has flags of the module, whose stored schema is
  older than the current schema and for which a matching migration of the catalog is a
  reset, the gate ends with all of the module's flags cleared, the schema flag among
  them (the gate stamps the schema only when no reset applies). For a character whose
  stored schema is the current one, the gate changes nothing and schedules no dialog.
\<close>

theorem migration_gate:
  "(hasModuleFlag a \<and> newer ACTOR_DAILY_SCHEMA (getSchemaFlag a) \<and>
    (\<exists>m\<in>set catalog. newer (schema m) (getSchemaFlag a) \<and> reset m = Some True)
    \<longrightarrow> moduleFlags (fst (migrationWith newer loc locReset catalog a)) = None \<and>
        getSchemaFlag (fst (migrationWith newer loc locReset catalog a)) = [])
   \<and> (getSchemaFlag a = ACTOR_DAILY_SCHEMA \<and> \<not> newer ACTOR_DAILY_SCHEMA ACTOR_DAILY_SCHEMA
    \<longrightarrow> migrationWith newer loc locReset catalog a = (a, None))"
proof (intro conjI impI)
  assume h: "hasModuleFlag a \<and> newer ACTOR_DAILY_SCHEMA (getSchemaFlag a) \<and>
    (\<exists>m\<in>set catalog. newer (schema m) (getSchemaFlag a) \<and> reset m = Some True)"
  obtain rst msgs where lp:
    "migrationLoop newer loc a (getSchemaFlag a) catalog (False, []) = (rst, msgs)"
    by (cases "migrationLoop newer loc a (getSchemaFlag a) catalog (False, [])")
  from h have "fst (migrationLoop newer loc a (getSchemaFlag a) catalog (False, []))"
    by (intro migrationLoop_reset_found) blast
  with lp have rst by simp
  with h lp show c1: "moduleFlags (fst (migrationWith newer loc locReset catalog a)) = None"
    by (simp add: migrationWith_def Let_def unsetMofuleFlag_def)
  then show "getSchemaFlag (fst (migrationWith newer loc locReset catalog a)) = []"
    by (simp add: getSchemaFlag_def)
next
  assume "getSchemaFlag a = ACTOR_DAILY_SCHEMA \<and> \<not> newer ACTOR_DAILY_SCHEMA ACTOR_DAILY_SCHEMA"
  then show "migrationWith newer loc locReset catalog a = (a, None)"
    by (simp add: migrationWith_def)
qed

text \<open>The amended C3 at the two characters of the claim, with the real catalog.\<close>

theorem migration_gate_witness:
  "moduleFlags (fst (migration isNewerVersion id ''reset'' actor_2_0_0)) = None \<and>
   getSchemaFlag (fst (migration isNewerVersion id ''reset'' actor_2_0_0)) = [] \<and>
   migration isNewerVersion id ''reset'' actor_3_0_0 = (actor_3_0_0, None)"
proof -
  have a: "hasModuleFlag actor_2_0_0 \<and>
      isNewerVersion ACTOR_DAILY_SCHEMA (getSchemaFlag actor_2_0_0) \<and>
      (\<exists>m\<in>set MIGRATIONS. isNewerVersion (schema m) (getSchemaFlag actor_2_0_0) \<and> reset m = Some True)"
    by (simp add: hasModuleFlag_def actor_2_0_0_def getSchemaFlag_def ACTOR_DAILY_SCHEMA_def
        MIGRATIONS_def isNewerVersion_3_2)
  have b: "getSchemaFlag actor_3_0_0 = ACTOR_DAILY_SCHEMA \<and>
      \<not> isNewerVersion ACTOR_DAILY_SCHEMA ACTOR_DAILY_SCHEMA"
    by (simp add: actor_3_0_0_def getSchemaFlag_def ACTOR_DAILY_SCHEMA_def isNewerVersion_3_3)
  from a b
    migration_gate [of actor_2_0_0 isNewerVersion MIGRATIONS id "''reset''"]
    migration_gate [of actor_3_0_0 isNewerVersion MIGRATIONS id "''reset''"]
  show ?thesis unfolding migration_def by blast
qed

section \<open>Uniqueness resolver\<close>

subsection \<open>Probing\<close>

lemma probeDown_le: "probeDown U opts i \<le> i"
  by (induction i) auto

lemma probeDown_free: "\<not> optionExists U opts i \<Longrightarrow> probeDown U opts i = i"
  by (cases i) auto

lemma probeDown_conflict: "optionExists U opts (probeDown U opts i) \<Longrightarrow> probeDown U opts i = 0"
  by (induction i) (auto split: if_splits)

lemma probeUp_free: "\<not> optionExists U opts i \<Longrightarrow> probeUp U opts m i = i"
  by (subst probeUp.simps) simp

lemma probeUp_bounds: "i \<le> m \<Longrightarrow> i \<le> probeUp U opts m i \<and> probeUp U opts m i \<le> m"
proof (induction U opts m i rule: probeUp.induct)
  case (1 U opts m i)
  show ?case
  proof (cases "optionExists U opts i \<and> i < m")
    case True
    then have eq: "probeUp U opts m i = probeUp U opts m (Suc i)"
      by (subst probeUp.simps) simp
    from 1 True have "Suc i \<le> probeUp U opts m (Suc i) \<and> probeUp U opts m (Suc i) \<le> m" by simp
    with eq show ?thesis by simp
  next
    case False
    have "probeUp U opts m i = i" by (subst probeUp.simps) (simp only: False if_False)
    with 1 show ?thesis by simp
  qed
qed

lemma probeUp_conflict:
  "i \<le> m \<Longrightarrow> optionExists U opts (probeUp U opts m i) \<Longrightarrow> i \<le> j \<Longrightarrow> j \<le> m \<Longrightarrow>
   optionExists U opts j"
proof (induction U opts m i rule: probeUp.induct)
  case (1 U opts m i)
  show ?case
  proof (cases "optionExists U opts i \<and> i < m")
    case True
    then have eq: "probeUp U opts m i = probeUp U opts m (Suc i)"
      by (subst probeUp.simps) simp
    show ?thesis
    proof (cases "j = i")
      case True
      with \<open>optionExists U opts i \<and> i < m\<close> show ?thesis by simp
    next
      case False
      with 1 True eq show ?thesis by simp
    qed
  next
    case False
    have eq: "probeUp U opts m i = i" by (subst probeUp.simps) (simp only: False if_False)
    with "1.prems" have ex: "optionExists U opts i" by simp
    with False "1.prems" have "i = m" by simp
    with "1.prems" have "j = i" by simp
    with ex show ?thesis by simp
  qed
qed

lemma probe_finds_free:
  assumes start: "start < length opts"
      and free: "j < length opts" "\<not> optionExists U opts j"
  shows "\<not> optionExists U opts (probeUp U opts (length opts - 1) (probeDown U opts start))"
proof
  let ?d = "probeDown U opts start"
  let ?m = "length opts - 1"
  assume c: "optionExists U opts (probeUp U opts ?m ?d)"
  have "optionExists U opts ?d"
  proof (rule ccontr)
    assume "\<not> optionExists U opts ?d"
    then have "probeUp U opts ?m ?d = ?d" by (rule probeUp_free)
    with c \<open>\<not> optionExists U opts ?d\<close> show False by simp
  qed
  then have d0: "?d = 0" by (rule probeDown_conflict)
  from free(1) have "j \<le> ?m" by simp
  with c d0 have "optionExists U opts j"
    using probeUp_conflict [of 0 ?m U opts j] by simp
  with free(2) show False by simp
qed

lemma probe_in_range:
  assumes "start < length opts"
  shows "probeUp U opts (length opts - 1) (probeDown U opts start) < length opts"
proof -
  have "probeDown U opts start \<le> length opts - 1"
    using probeDown_le [of U opts start] assms by simp
  from probeUp_bounds [OF this, of U opts] assms show ?thesis by linarith
qed

subsection \<open>One element\<close>

lemma conflicting_iff: "conflicting U el \<longleftrightarrow> claimOf el \<noteq> {} \<and> claimOf el \<subseteq> U"
  by (auto simp: conflicting_def claimOf_def optionExists_def selectedUnique_def split: option.splits)

lemma allSelected_iff: "allSelected els \<longleftrightarrow> (\<forall>el\<in>set els. inRange el)"
  by (simp add: allSelected_def inRange_def list_all_iff)

lemma resolveElement_unchanged:
  assumes "inRange el" "\<not> conflicting U el"
  shows "resolveElement U el = Inr (U \<union> claimOf el, el)"
proof -
  let ?i = "nat (selectedIndex el)"
  from assms(2) have nc: "\<not> optionExists U (sel_options el) ?i" by (simp add: conflicting_def)
  then have d: "probeDown U (sel_options el) ?i = ?i" by (rule probeDown_free)
  from nc have u: "\<And>m. probeUp U (sel_options el) m ?i = ?i"
    by (rule probeUp_free)
  from assms(1) have idx: "int ?i = selectedIndex el" by (simp add: inRange_def)
  have cl: "(case optionUniqueValue (sel_options el) ?i of None \<Rightarrow> U
             | Some v \<Rightarrow> if v \<noteq> [] then insert v U else U) = U \<union> claimOf el"
    by (auto simp: claimOf_def selectedUnique_def split: option.splits)
  from assms(1) have "\<not> (selectedIndex el < 0 \<or> int (length (sel_options el)) \<le> selectedIndex el)"
    by (simp add: inRange_def)
  then show ?thesis
    using nc by (simp add: resolveElement_def Let_def d u idx cl)
qed

lemma resolveElement_result:
  assumes "inRange el"
  shows "\<exists>U' el'. resolveElement U el = Inr (U', el') \<and> sel_options el' = sel_options el \<and>
           inRange el' \<and>
           ((conflicting U el' \<and> el' = el \<and> U' = U) \<or>
            (\<not> conflicting U el' \<and> U' = U \<union> claimOf el'))"
proof -
  let ?opts = "sel_options el"
  let ?i = "probeUp U ?opts (length ?opts - 1) (probeDown U ?opts (nat (selectedIndex el)))"
  from assms have ok: "\<not> (selectedIndex el < 0 \<or> int (length ?opts) \<le> selectedIndex el)"
    by (simp add: inRange_def)
  from assms(1) have st: "nat (selectedIndex el) < length ?opts"
    unfolding inRange_def by linarith
  have ir: "?i < length ?opts" using st by (rule probe_in_range)
  show ?thesis
  proof (cases "optionExists U ?opts ?i")
    case True
    then have r: "resolveElement U el = Inr (U, el)"
      using ok by (simp add: resolveElement_def Let_def)
    have "conflicting U el"
    proof (rule ccontr)
      assume "\<not> conflicting U el"
      then have nc: "\<not> optionExists U ?opts (nat (selectedIndex el))" by (simp add: conflicting_def)
      then have "probeDown U ?opts (nat (selectedIndex el)) = nat (selectedIndex el)"
        by (rule probeDown_free)
      moreover from nc have "probeUp U ?opts (length ?opts - 1) (nat (selectedIndex el)) = nat (selectedIndex el)"
        by (rule probeUp_free)
      ultimately have "?i = nat (selectedIndex el)" by simp
      with True nc show False by simp
    qed
    with r assms show ?thesis by simp
  next
    case False
    let ?el' = "el\<lparr>selectedIndex := int ?i\<rparr>"
    have cl: "(case optionUniqueValue ?opts ?i of None \<Rightarrow> U
             | Some v \<Rightarrow> if v \<noteq> [] then insert v U else U) = U \<union> claimOf ?el'"
      by (auto simp: claimOf_def selectedUnique_def split: option.splits)
    from False ok have r: "resolveElement U el = Inr (U \<union> claimOf ?el', ?el')"
      unfolding resolveElement_def Let_def cl by simp
    have "inRange ?el'" using ir by (simp add: inRange_def)
    moreover have "\<not> conflicting U ?el'" using False by (simp add: conflicting_def)
    ultimately show ?thesis using r by simp
  qed
qed

lemma resolveElement_free:
  assumes "inRange el" "j < length (sel_options el)" "\<not> optionExists U (sel_options el) j"
  shows "\<exists>el'. resolveElement U el = Inr (U \<union> claimOf el', el') \<and>
           sel_options el' = sel_options el \<and> inRange el' \<and> \<not> conflicting U el'"
proof -
  let ?opts = "sel_options el"
  let ?i = "probeUp U ?opts (length ?opts - 1) (probeDown U ?opts (nat (selectedIndex el)))"
  let ?el' = "el\<lparr>selectedIndex := int ?i\<rparr>"
  from assms have ok: "\<not> (selectedIndex el < 0 \<or> int (length ?opts) \<le> selectedIndex el)"
    by (simp add: inRange_def)
  from assms(1) have st: "nat (selectedIndex el) < length ?opts"
    unfolding inRange_def by linarith
  have ir: "?i < length ?opts" using st by (rule probe_in_range)
  have free: "\<not> optionExists U ?opts ?i" using st assms(2,3) by (rule probe_finds_free)
  have cl: "(case optionUniqueValue ?opts ?i of None \<Rightarrow> U
             | Some v \<Rightarrow> if v \<noteq> [] then insert v U else U) = U \<union> claimOf ?el'"
    by (auto simp: claimOf_def selectedUnique_def split: option.splits)
  from free ok have r: "resolveElement U el = Inr (U \<union> claimOf ?el', ?el')"
    unfolding resolveElement_def Let_def cl by simp
  have "inRange ?el'" using ir by (simp add: inRange_def)
  moreover have "\<not> conflicting U ?el'" using free by (simp add: conflicting_def)
  ultimately show ?thesis using r by auto
qed

lemma resolveElement_idem:
  assumes "resolveElement U el = Inr (U', el')"
  shows "resolveElement U el' = Inr (U', el')"
proof -
  from assms have ir: "inRange el"
    by (auto simp: resolveElement_def inRange_def Let_def split: if_splits)
  from resolveElement_result [OF ir, of U] assms
  have c: "inRange el' \<and> ((conflicting U el' \<and> el' = el \<and> U' = U) \<or>
            (\<not> conflicting U el' \<and> U' = U \<union> claimOf el'))" by auto
  then show ?thesis
  proof (elim conjE disjE)
    assume "el' = el" "U' = U"
    with assms show ?thesis by simp
  next
    assume "inRange el'" "\<not> conflicting U el'" "U' = U \<union> claimOf el'"
    then show ?thesis by (simp add: resolveElement_unchanged)
  qed
qed

subsection \<open>The claimed values of a group\<close>

lemma set_claimList: "set (claimList el) = claimOf el"
  by (auto simp: claimList_def claimOf_def split: option.splits)

lemma distinct_claimList: "distinct (claimList el)"
  by (simp add: claimList_def split: option.splits)

lemma card_claimOf: "card (claimOf el) \<le> 1"
  by (simp add: claimOf_def split: option.splits)

lemma finite_claimOf: "finite (claimOf el)"
  by (simp add: claimOf_def split: option.splits)

lemma claimed_Nil: "filter (\<lambda>v. v \<noteq> []) (selectedUniqueValues []) = []"
  by (simp add: selectedUniqueValues_def List.map_filter_simps)

lemma claimed_Cons:
  "filter (\<lambda>v. v \<noteq> []) (selectedUniqueValues (el # els)) =
   claimList el @ filter (\<lambda>v. v \<noteq> []) (selectedUniqueValues els)"
  by (simp add: selectedUniqueValues_def List.map_filter_simps claimList_def split: option.splits)

lemma free_option_exists:
  assumes "finite U" "card U < length (claimableValues opts)"
  shows "\<exists>j<length opts. \<not> optionExists U opts j"
proof -
  let ?C = "set (claimableValues opts)"
  have "distinct (claimableValues opts)" by (simp add: claimableValues_def)
  then have "card ?C = length (claimableValues opts)" by (rule distinct_card)
  with assms have "\<not> ?C \<subseteq> U" using card_mono [of U ?C] by auto
  then obtain v where v: "v \<in> ?C" "v \<notin> U" by blast
  from v(1) obtain option where o: "option \<in> set opts" "uniqueValueOf option = Some v"
    by (auto simp: claimableValues_def List.map_filter_def)
  from o(1) obtain j where j: "j < length opts" "opts ! j = option"
    by (auto simp: in_set_conv_nth)
  with o(2) v(2) have "\<not> optionExists U opts j"
    by (simp add: optionExists_def optionUniqueValue_def)
  with j(1) show ?thesis by blast
qed

lemma resolveAll_distinct:
  assumes "finite U" "allSelected els"
      and "\<forall>el\<in>set els. card U + length els \<le> length (claimableValues (sel_options el))"
  shows "\<exists>U' els'. resolveAll U els = Inr (U', els') \<and> length els' = length els \<and>
           allSelected els' \<and>
           map sel_options els' = map sel_options els \<and>
           distinct (filter (\<lambda>v. v \<noteq> []) (selectedUniqueValues els')) \<and>
           set (filter (\<lambda>v. v \<noteq> []) (selectedUniqueValues els')) \<inter> U = {} \<and>
           U' = U \<union> set (filter (\<lambda>v. v \<noteq> []) (selectedUniqueValues els'))"
  using assms
proof (induction els arbitrary: U)
  case Nil
  then show ?case by (simp add: selectedUniqueValues_def List.map_filter_simps allSelected_iff)
next
  case (Cons el els)
  from Cons.prems(2) have ir: "inRange el" and rest: "allSelected els"
    by (simp_all add: allSelected_iff)
  from Cons.prems(3) have "card U < length (claimableValues (sel_options el))" by simp
  with Cons.prems(1) obtain j where j: "j < length (sel_options el)"
      "\<not> optionExists U (sel_options el) j"
    using free_option_exists by blast
  from resolveElement_free [OF ir j] obtain el' where el':
    "resolveElement U el = Inr (U \<union> claimOf el', el')" "sel_options el' = sel_options el"
    "inRange el'" "\<not> conflicting U el'" by blast
  let ?U1 = "U \<union> claimOf el'"
  have fin: "finite ?U1" using Cons.prems(1) by (simp add: finite_claimOf)
  have "card ?U1 \<le> card U + card (claimOf el')" by (rule card_Un_le)
  then have c1: "card ?U1 \<le> card U + 1" using card_claimOf [of el'] by linarith
  have "\<forall>e\<in>set els. card ?U1 + length els \<le> length (claimableValues (sel_options e))"
  proof
    fix e assume "e \<in> set els"
    with Cons.prems(3) have "card U + Suc (length els) \<le> length (claimableValues (sel_options e))"
      by simp
    with c1 show "card ?U1 + length els \<le> length (claimableValues (sel_options e))" by linarith
  qed
  from Cons.IH [OF fin rest this] obtain U' els' where IH:
    "resolveAll ?U1 els = Inr (U', els')" "length els' = length els" "allSelected els'"
    "map sel_options els' = map sel_options els"
    "distinct (filter (\<lambda>v. v \<noteq> []) (selectedUniqueValues els'))"
    "set (filter (\<lambda>v. v \<noteq> []) (selectedUniqueValues els')) \<inter> ?U1 = {}"
    "U' = ?U1 \<union> set (filter (\<lambda>v. v \<noteq> []) (selectedUniqueValues els'))" by blast
  have r: "resolveAll U (el # els) = Inr (U', el' # els')"
    using el'(1) IH(1) by simp
  from el'(4) have disj: "claimOf el' \<inter> U = {}"
    using conflicting_iff [of U el'] card_claimOf [of el']
    by (auto simp: claimOf_def split: option.splits if_splits)
  have "distinct (filter (\<lambda>v. v \<noteq> []) (selectedUniqueValues (el' # els')))"
    unfolding claimed_Cons using IH(5,6) distinct_claimList [of el']
    by (auto simp: set_claimList)
  moreover have "set (filter (\<lambda>v. v \<noteq> []) (selectedUniqueValues (el' # els'))) \<inter> U = {}"
    unfolding claimed_Cons using IH(6) disj by (auto simp: set_claimList)
  moreover have "U' = U \<union> set (filter (\<lambda>v. v \<noteq> []) (selectedUniqueValues (el' # els')))"
    unfolding claimed_Cons using IH(7) by (auto simp: set_claimList)
  moreover have "allSelected (el' # els')" using el'(3) IH(3) by (simp add: allSelected_iff)
  ultimately show ?case using r IH(2,4) el'(2) by simp
qed

lemma resolveAll_idem:
  "resolveAll U els = Inr (U', els') \<Longrightarrow> resolveAll U els' = Inr (U', els')"
proof (induction els arbitrary: U U' els')
  case Nil
  then show ?case by simp
next
  case (Cons el els)
  from Cons.prems obtain U1 el1 els1 where
    s: "resolveElement U el = Inr (U1, el1)" "resolveAll U1 els = Inr (U', els1)" "els' = el1 # els1"
    by (auto split: sum.splits)
  from s(1) have "resolveElement U el1 = Inr (U1, el1)" by (rule resolveElement_idem)
  moreover from s(2) have "resolveAll U1 els1 = Inr (U', els1)" by (rule Cons.IH)
  ultimately show ?case using s(3) by simp
qed

lemma resolveAll_conflict_free:
  assumes "allSelected els"
      and "distinct (filter (\<lambda>v. v \<noteq> []) (selectedUniqueValues els))"
      and "set (filter (\<lambda>v. v \<noteq> []) (selectedUniqueValues els)) \<inter> U = {}"
  shows "\<exists>U'. resolveAll U els = Inr (U', els)"
  using assms
proof (induction els arbitrary: U)
  case Nil
  then show ?case by simp
next
  case (Cons el els)
  from Cons.prems(1) have ir: "inRange el" and rest: "allSelected els"
    by (simp_all add: allSelected_iff)
  from Cons.prems(3) have "claimOf el \<inter> U = {}"
    unfolding claimed_Cons by (auto simp: set_claimList)
  then have "\<not> conflicting U el" by (auto simp: conflicting_iff)
  with ir have r: "resolveElement U el = Inr (U \<union> claimOf el, el)"
    by (rule resolveElement_unchanged)
  from Cons.prems(2) have d: "distinct (filter (\<lambda>v. v \<noteq> []) (selectedUniqueValues els))"
    unfolding claimed_Cons by simp
  from Cons.prems(2,3) have
    "set (filter (\<lambda>v. v \<noteq> []) (selectedUniqueValues els)) \<inter> (U \<union> claimOf el) = {}"
    unfolding claimed_Cons by (auto simp: set_claimList)
  from Cons.IH [OF rest d this] obtain U' where "resolveAll (U \<union> claimOf el) els = Inr (U', els)"
    by blast
  with r show ?case by simp
qed

subsection \<open>Disabled flags\<close>

lemma uniqueOrValue_disabled [simp]: "uniqueOrValue (option\<lparr>opt_disabled := b\<rparr>) = uniqueOrValue option"
  by (simp add: uniqueOrValue_def split: option.split)

lemma uniqueValueOf_disabled [simp]: "uniqueValueOf (option\<lparr>opt_disabled := b\<rparr>) = uniqueValueOf option"
  by (simp add: uniqueValueOf_def)

lemma updateDisabled_index [simp]: "selectedIndex (updateDisabled V el) = selectedIndex el"
  by (simp add: updateDisabled_def)

lemma updateDisabled_length [simp]:
  "length (sel_options (updateDisabled V el)) = length (sel_options el)"
  by (simp add: updateDisabled_def)

lemma updateDisabled_nth:
  "i < length (sel_options el) \<Longrightarrow>
   sel_options (updateDisabled V el) ! i =
     (if int i = selectedIndex el then sel_options el ! i
      else (sel_options el ! i)\<lparr>opt_disabled := (uniqueOrValue (sel_options el ! i) \<in> V)\<rparr>)"
  by (simp add: updateDisabled_def nth_enumerate_eq)

lemma updateDisabled_unique:
  "map uniqueValueOf (sel_options (updateDisabled V el)) = map uniqueValueOf (sel_options el)"
  by (rule nth_equalityI) (simp_all add: updateDisabled_nth)

lemma updateDisabled_as_update:
  "updateDisabled V el = el\<lparr>sel_options := sel_options (updateDisabled V el)\<rparr>"
  by (simp add: updateDisabled_def)

lemma updateDisabled_idem: "updateDisabled V (updateDisabled V el) = updateDisabled V el"
proof -
  have "sel_options (updateDisabled V (updateDisabled V el)) = sel_options (updateDisabled V el)"
    by (rule nth_equalityI) (simp_all add: updateDisabled_nth)
  moreover have "updateDisabled V (updateDisabled V el) =
      (updateDisabled V el)\<lparr>sel_options := sel_options (updateDisabled V (updateDisabled V el))\<rparr>"
    by (rule updateDisabled_as_update)
  ultimately show ?thesis by simp
qed

lemma selectedUnique_updateDisabled:
  "inRange el \<Longrightarrow> selectedUnique (updateDisabled V el) = selectedUnique el"
proof -
  assume "inRange el"
  then have "nat (selectedIndex el) < length (sel_options el)"
    unfolding inRange_def by linarith
  then show ?thesis
    by (simp add: selectedUnique_def optionUniqueValue_def updateDisabled_nth)
qed

subsection \<open>The resolver reads only the unique-values of the options\<close>

lemma optionExists_cong:
  assumes "map uniqueValueOf opts' = map uniqueValueOf opts" "i < length opts"
  shows "optionExists U opts' i = optionExists U opts i"
    and "optionUniqueValue opts' i = optionUniqueValue opts i"
proof -
  from assms(1) have "length opts' = length opts" by (rule map_eq_imp_length_eq)
  with assms have "uniqueValueOf (opts' ! i) = uniqueValueOf (opts ! i)"
    by (metis nth_map)
  then show "optionUniqueValue opts' i = optionUniqueValue opts i"
    by (simp add: optionUniqueValue_def)
  then show "optionExists U opts' i = optionExists U opts i"
    by (simp add: optionExists_def)
qed

lemma probeDown_cong:
  assumes "map uniqueValueOf opts' = map uniqueValueOf opts"
  shows "i < length opts \<Longrightarrow> probeDown U opts' i = probeDown U opts i"
proof (induction i)
  case 0
  show ?case by simp
next
  case (Suc i)
  then show ?case using optionExists_cong(1) [OF assms, of "Suc i" U] by simp
qed

lemma probeUp_cong:
  assumes "map uniqueValueOf opts' = map uniqueValueOf opts"
  shows "m < length opts \<Longrightarrow> i \<le> m \<Longrightarrow> probeUp U opts' m i = probeUp U opts m i"
proof (induction "m - i" arbitrary: i)
  case 0
  then have "\<not> i < m" by simp
  then show ?case by (subst (1 2) probeUp.simps) simp
next
  case (Suc k)
  from Suc.prems have il: "i < length opts" by simp
  have ex: "optionExists U opts' i = optionExists U opts i"
    using assms il by (rule optionExists_cong(1))
  from Suc.hyps(2) have "k = m - Suc i" "Suc i \<le> m" by simp_all
  with Suc.hyps(1) Suc.prems(1) have "probeUp U opts' m (Suc i) = probeUp U opts m (Suc i)"
    by blast
  with ex show ?case by (subst (1 2) probeUp.simps) simp
qed

lemma resolveElement_fixed_cong:
  assumes fx: "resolveElement U el = Inr (U', el)"
      and eq: "map uniqueValueOf opts' = map uniqueValueOf (sel_options el)"
  shows "resolveElement U (el\<lparr>sel_options := opts'\<rparr>) = Inr (U', el\<lparr>sel_options := opts'\<rparr>)"
proof -
  let ?opts = "sel_options el"
  let ?s = "nat (selectedIndex el)"
  from fx have ir: "inRange el"
    by (auto simp: resolveElement_def inRange_def Let_def split: if_splits)
  then have st: "?s < length ?opts" unfolding inRange_def by linarith
  from eq have len: "length opts' = length ?opts" by (rule map_eq_imp_length_eq)
  have d: "probeDown U opts' ?s = probeDown U ?opts ?s"
    using eq st by (rule probeDown_cong)
  have dl: "probeDown U ?opts ?s \<le> length ?opts - 1"
    using probeDown_le [of U ?opts ?s] st by simp
  have ml: "length ?opts - 1 < length ?opts" using st by simp
  have u: "probeUp U opts' (length ?opts - 1) (probeDown U ?opts ?s) =
           probeUp U ?opts (length ?opts - 1) (probeDown U ?opts ?s)"
    using eq ml dl by (rule probeUp_cong)
  note u = u [unfolded One_nat_def]
  let ?i = "probeUp U ?opts (length ?opts - 1) (probeDown U ?opts ?s)"
  have il: "?i < length ?opts" using st by (rule probe_in_range)
  have ex: "optionExists U opts' ?i = optionExists U ?opts ?i"
    using eq il by (rule optionExists_cong(1))
  note ex = ex [unfolded One_nat_def]
  have uv: "optionUniqueValue opts' ?i = optionUniqueValue ?opts ?i"
    using eq il by (rule optionExists_cong(2))
  note uv = uv [unfolded One_nat_def]
  from ir have ok: "\<not> (selectedIndex el < 0 \<or> int (length ?opts) \<le> selectedIndex el)"
    by (simp add: inRange_def)
  show ?thesis
  proof (cases "optionExists U ?opts ?i")
    case True
    with fx ok have "U' = U" by (simp add: resolveElement_def Let_def)
    with True ok show ?thesis
      by (simp add: resolveElement_def Let_def len d u ex)
  next
    case False
    with fx ok have
      U': "U' = (case optionUniqueValue ?opts ?i of None \<Rightarrow> U
                 | Some v \<Rightarrow> if v \<noteq> [] then insert v U else U)"
      and fxel: "el\<lparr>selectedIndex := int ?i\<rparr> = el"
      by (simp_all add: resolveElement_def Let_def)
    from arg_cong [OF fxel, of selectedIndex] have "selectedIndex el = int ?i" by simp
    then have "el\<lparr>sel_options := opts', selectedIndex := int ?i\<rparr> = el\<lparr>sel_options := opts'\<rparr>"
      by simp
    with False ok U' show ?thesis
      by (simp add: resolveElement_def Let_def len d u ex uv)
  qed
qed

lemma resolveElement_fixed_updateDisabled:
  assumes "resolveElement U el = Inr (U', el)"
  shows "resolveElement U (updateDisabled V el) = Inr (U', updateDisabled V el)"
proof -
  have "resolveElement U (el\<lparr>sel_options := sel_options (updateDisabled V el)\<rparr>) =
        Inr (U', el\<lparr>sel_options := sel_options (updateDisabled V el)\<rparr>)"
    using assms updateDisabled_unique by (rule resolveElement_fixed_cong)
  then show ?thesis using updateDisabled_as_update [of V el] by simp
qed

lemma resolveAll_fixed_updateDisabled:
  "resolveAll U els = Inr (U', els) \<Longrightarrow>
   resolveAll U (map (updateDisabled V) els) = Inr (U', map (updateDisabled V) els)"
proof (induction els arbitrary: U)
  case Nil
  then show ?case by simp
next
  case (Cons el els)
  from Cons.prems obtain U1 where
    s: "resolveElement U el = Inr (U1, el)" "resolveAll U1 els = Inr (U', els)"
    by (auto split: sum.splits)
  from s(1) have "resolveElement U (updateDisabled V el) = Inr (U1, updateDisabled V el)"
    by (rule resolveElement_fixed_updateDisabled)
  moreover from s(2) have
    "resolveAll U1 (map (updateDisabled V) els) = Inr (U', map (updateDisabled V) els)"
    by (rule Cons.IH)
  ultimately show ?case by simp
qed

lemma selectedUniqueValues_updateDisabled:
  "allSelected els \<Longrightarrow>
   selectedUniqueValues (map (updateDisabled V) els) = selectedUniqueValues els"
  by (induction els)
    (simp_all add: selectedUniqueValues_def List.map_filter_simps allSelected_iff
      selectedUnique_updateDisabled split: option.splits)

lemma onUniqueChange_twice:
  assumes "onUniqueChange els = Inr els'"
  shows "onUniqueChange els' = Inr els'"
proof -
  from assms obtain U1 els1 where
    r: "resolveAll {} els = Inr (U1, els1)" and e: "els' = map (updateDisabled U1) els1"
    by (auto simp: onUniqueChange_def split: sum.splits)
  from r have "resolveAll {} els1 = Inr (U1, els1)" by (rule resolveAll_idem)
  then have "resolveAll {} els' = Inr (U1, els')"
    unfolding e by (rule resolveAll_fixed_updateDisabled)
  then show ?thesis
    by (simp add: onUniqueChange_def e updateDisabled_idem)
qed

lemma onUniqueChange_conflict_free:
  assumes "allSelected els" "distinct (selectedUniqueValues els)"
  shows "\<exists>els'. onUniqueChange els = Inr els' \<and> map selectedIndex els' = map selectedIndex els"
proof -
  from assms(2) have "distinct (filter (\<lambda>v. v \<noteq> []) (selectedUniqueValues els))"
    by (rule distinct_filter)
  with assms(1) obtain U' where "resolveAll {} els = Inr (U', els)"
    using resolveAll_conflict_free [of els "{}"] by auto
  then show ?thesis by (simp add: onUniqueChange_def comp_def)
qed

lemma onUniqueChange_distinct:
  assumes "allSelected els"
      and "\<forall>el\<in>set els. length els \<le> length (claimableValues (sel_options el))"
  shows "\<exists>els'. onUniqueChange els = Inr els' \<and> length els' = length els \<and>
           allSelected els' \<and>
           map (map uniqueValueOf \<circ> sel_options) els' = map (map uniqueValueOf \<circ> sel_options) els \<and>
           distinct (filter (\<lambda>v. v \<noteq> []) (selectedUniqueValues els'))"
proof -
  from assms have "\<forall>el\<in>set els. card ({}::string set) + length els \<le> length (claimableValues (sel_options el))"
    by simp
  from resolveAll_distinct [OF _ assms(1) this]
  obtain U' els1 where r: "resolveAll {} els = Inr (U', els1)" "length els1 = length els"
    "allSelected els1" "map sel_options els1 = map sel_options els"
    "distinct (filter (\<lambda>v. v \<noteq> []) (selectedUniqueValues els1))"
    by auto
  have "allSelected (map (updateDisabled U') els1)"
    using r(3) by (simp add: allSelected_iff inRange_def)
  moreover have "map (map uniqueValueOf \<circ> sel_options) (map (updateDisabled U') els1) =
      map (map uniqueValueOf) (map sel_options els1)"
    by (simp add: comp_def updateDisabled_unique)
  ultimately show ?thesis using r
    by (simp add: onUniqueChange_def selectedUniqueValues_updateDisabled)
qed

text \<open>
  C4, as stated, fails: two selects share two options with the distinct unique-values
  "" and "a", neither marked skip-unique, and both are on the option with the empty
  value. The resolver changes nothing (an empty unique-value neither conflicts nor is
  claimed), so both stay on the same unique-value.
\<close>

theorem unique_resolution_counterexample:
  "length both_blank = 2 \<and>
   list_all (\<lambda>el. length (remdups (List.map_filter uniqueValueOf (sel_options el))) = 2) both_blank \<and>
   onUniqueChange both_blank = Inr both_blank \<and>
   selectedUniqueValues both_blank = [[], []] \<and>
   \<not> distinct (selectedUniqueValues both_blank)"
  by code_simp

text \<open>
  C4 (amended): for a group of N select elements that all have an option selected, where
  the options of every element offer at least N distinct non-empty unique-values that are
  not exempt, the resolver returns, keeps the unique-values of all options, and leaves no
  two elements on options with the same non-empty, non-exempt unique-value. Besides the
  options marked skip-unique, an option whose unique-value is the empty string neither
  claims nor conflicts.
\<close>

theorem unique_resolution:
  "allSelected els \<and> (\<forall>el\<in>set els. length els \<le> length (claimableValues (sel_options el)))
   \<longrightarrow> (\<exists>els'. onUniqueChange els = Inr els' \<and> length els' = length els \<and>
          allSelected els' \<and>
          map (map uniqueValueOf \<circ> sel_options) els' = map (map uniqueValueOf \<circ> sel_options) els \<and>
          distinct (filter (\<lambda>v. v \<noteq> []) (selectedUniqueValues els')))"
  using onUniqueChange_distinct by blast

text \<open>The amended C4 on two selects that start on the same option.\<close>

theorem unique_resolution_witness:
  "allSelected both_on_a \<and>
   list_all (\<lambda>el. length both_on_a \<le> length (claimableValues (sel_options el))) both_on_a \<and>
   (\<exists>els'. onUniqueChange both_on_a = Inr els' \<and> length els' = length both_on_a \<and>
      allSelected els' \<and>
      map (map uniqueValueOf \<circ> sel_options) els' = map (map uniqueValueOf \<circ> sel_options) both_on_a \<and>
      distinct (filter (\<lambda>v. v \<noteq> []) (selectedUniqueValues els')))"
proof -
  have a: "allSelected both_on_a" by code_simp
  have b: "list_all (\<lambda>el. length both_on_a \<le> length (claimableValues (sel_options el))) both_on_a"
    by code_simp
  then have "\<forall>el\<in>set both_on_a. length both_on_a \<le> length (claimableValues (sel_options el))"
    by (simp add: list_all_iff)
  with a b unique_resolution [of both_on_a] show ?thesis by blast
qed

text \<open>
  C5: on a group whose selections are conflict-free (no two elements on the same
  non-exempt unique-value) the resolver changes no selected index; and whenever the
  resolver returns, running it again on its result returns that result unchanged:
  the same selected indices and the same disabled flags.
\<close>

theorem unique_resolution_idempotent:
  "(allSelected els \<and> distinct (selectedUniqueValues els)
    \<longrightarrow> (\<exists>els'. onUniqueChange els = Inr els' \<and> map selectedIndex els' = map selectedIndex els))
   \<and> (onUniqueChange els = Inr els' \<longrightarrow> onUniqueChange els' = Inr els')"
  using onUniqueChange_conflict_free onUniqueChange_twice by blast

text \<open>C5 on two selects that are on different options.\<close>

theorem unique_resolution_idempotent_witness:
  "allSelected on_a_and_b \<and> distinct (selectedUniqueValues on_a_and_b) \<and>
   (\<exists>els'. onUniqueChange on_a_and_b = Inr els' \<and>
      map selectedIndex els' = map selectedIndex on_a_and_b \<and>
      onUniqueChange els' = Inr els')"
proof -
  have a: "allSelected on_a_and_b" by code_simp
  have b: "distinct (selectedUniqueValues on_a_and_b)" by code_simp
  from a b unique_resolution_idempotent [of on_a_and_b] obtain els' where
    e: "onUniqueChange on_a_and_b = Inr els'" "map selectedIndex els' = map selectedIndex on_a_and_b"
    by blast
  from e(1) unique_resolution_idempotent [of on_a_and_b els'] have "onUniqueChange els' = Inr els'"
    by blast
  with a b e show ?thesis by blast
qed

section \<open>Template builder\<close>

lemma buildRow_keys:
  "buildRow loc a k row = Some t \<Longrightarrow> t_daily t = k \<and> t_row t = row_slug row"
  by (auto simp: buildRow_def Let_def split: if_splits prod.splits)

lemma buildRow_empty_options:
  "row_kind row \<in> {Select, Random} \<Longrightarrow> row_options row = [] \<Longrightarrow> buildRow loc a k row = None"
  by (auto simp: buildRow_def Let_def)

lemma buildRow_combo:
  "row_kind row = Combo \<Longrightarrow> row_condition row \<noteq> Some False \<Longrightarrow> buildRow loc a k row \<noteq> None"
  by (auto simp: buildRow_def Let_def split: prod.splits)

lemma set_insertSorted: "set (insertSorted before x xs) = insert x (set xs)"
  by (induction xs) auto

lemma set_stableSort: "set (stableSort before xs) = set xs"
  by (induction xs) (simp_all add: stableSort_def set_insertSorted)

lemma set_map_filter: "set (List.map_filter f xs) = {y. \<exists>x\<in>set xs. f x = Some y}"
  by (induction xs) (auto simp: List.map_filter_simps split: option.splits)

lemma set_buildRows:
  "set (buildRows loc a daily) =
   {t. \<exists>row\<in>set (daily_rows daily). buildRow loc a (daily_key daily) row = Some t}"
  by (simp add: buildRows_def set_map_filter)

lemma set_buildTemplates:
  "set (buildTemplates loc a disabled dailies) =
   {\<lparr>dt_label = daily_label daily, dt_rows = buildRows loc a daily\<rparr> | daily.
      daily \<in> set dailies \<and> \<not> disabled (daily_key daily) \<and> buildRows loc a daily \<noteq> []}"
  by (auto simp: buildTemplates_def set_map_filter Let_def split: if_splits)

lemma rendered_keys:
  "{(t_daily t, t_row t) | t. t \<in> set (renderedRows (collectTemplates loc a disabled dailies))} =
   {(t_daily t, t_row t) | t. \<exists>tpl\<in>set (buildTemplates loc a disabled dailies). t \<in> set (dt_rows tpl)}"
  (is "?L = ?R")
proof (intro equalityI subsetI)
  fix p assume "p \<in> ?L"
  then obtain t where t: "p = (t_daily t, t_row t)"
      "t \<in> set (renderedRows (collectTemplates loc a disabled dailies))" by blast
  from t(2) consider
    (flat) tpl where "tpl \<in> set (buildTemplates loc a disabled dailies)"
       "length (dt_rows tpl) = 1" "t = (hd (dt_rows tpl))\<lparr>t_label := dt_label tpl\<rparr>"
  | (grp) tpl where "tpl \<in> set (buildTemplates loc a disabled dailies)" "t \<in> set (dt_rows tpl)"
    by (auto simp: renderedRows_def collectTemplates_def Let_def set_stableSort)
  then show "p \<in> ?R"
  proof cases
    case flat
    from flat(2) have "hd (dt_rows tpl) \<in> set (dt_rows tpl)"
      by (cases "dt_rows tpl") auto
    with flat(1,3) t(1) show ?thesis by force
  next
    case grp
    with t(1) show ?thesis by blast
  qed
next
  fix p assume "p \<in> ?R"
  then obtain t tpl where t: "p = (t_daily t, t_row t)"
      "tpl \<in> set (buildTemplates loc a disabled dailies)" "t \<in> set (dt_rows tpl)" by blast
  show "p \<in> ?L"
  proof (cases "length (dt_rows tpl) = 1 \<and> t_type (hd (dt_rows tpl)) \<noteq> Alert")
    case True
    with t(3) have "t = hd (dt_rows tpl)" by (cases "dt_rows tpl") auto
    with True t(2) have "t\<lparr>t_label := dt_label tpl\<rparr> \<in> set (renderedRows (collectTemplates loc a disabled dailies))"
      by (auto simp: renderedRows_def collectTemplates_def Let_def set_stableSort)
    moreover have "p = (t_daily (t\<lparr>t_label := dt_label tpl\<rparr>), t_row (t\<lparr>t_label := dt_label tpl\<rparr>))"
      using t(1) by simp
    ultimately show ?thesis by blast
  next
    case False
    with t(2,3) have "t \<in> set (renderedRows (collectTemplates loc a disabled dailies))"
      by (auto simp: renderedRows_def collectTemplates_def Let_def set_stableSort)
    with t(1) show ?thesis by blast
  qed
qed

lemma distinct_map_eq:
  "distinct (map f xs) \<Longrightarrow> x \<in> set xs \<Longrightarrow> y \<in> set xs \<Longrightarrow> f x = f y \<Longrightarrow> x = y"
  by (meson distinct_map inj_on_def)

lemma rendered_from_row:
  assumes "t \<in> set (renderedRows (collectTemplates loc a disabled dailies))"
  shows "\<exists>daily\<in>set dailies. \<exists>row\<in>set (daily_rows daily). \<exists>t'.
           \<not> disabled (daily_key daily) \<and>
           buildRow loc a (daily_key daily) row = Some t' \<and>
           t_daily t = daily_key daily \<and> t_row t = row_slug row"
proof -
  from assms have "(t_daily t, t_row t) \<in>
      {(t_daily t, t_row t) | t. t \<in> set (renderedRows (collectTemplates loc a disabled dailies))}"
    by blast
  then have "(t_daily t, t_row t) \<in>
      {(t_daily t, t_row t) | t. \<exists>tpl\<in>set (buildTemplates loc a disabled dailies). t \<in> set (dt_rows tpl)}"
    unfolding rendered_keys .
  then obtain t' tpl where t': "t_daily t = t_daily t'" "t_row t = t_row t'"
      "tpl \<in> set (buildTemplates loc a disabled dailies)" "t' \<in> set (dt_rows tpl)" by blast
  from t'(3) obtain daily where d: "daily \<in> set dailies" "\<not> disabled (daily_key daily)"
      "dt_rows tpl = buildRows loc a daily"
    unfolding set_buildTemplates by auto
  from t'(4) d(3) have "t' \<in> set (buildRows loc a daily)" by simp
  then obtain row where r: "row \<in> set (daily_rows daily)"
      "buildRow loc a (daily_key daily) row = Some t'"
    unfolding set_buildRows by blast
  from buildRow_keys [OF r(2)] t'(1,2) d(1,2) r show ?thesis by auto
qed

lemma row_rendered:
  assumes "daily \<in> set dailies" "\<not> disabled (daily_key daily)" "row \<in> set (daily_rows daily)"
      and "buildRow loc a (daily_key daily) row = Some t'"
  shows "\<exists>t\<in>set (renderedRows (collectTemplates loc a disabled dailies)).
           t_daily t = daily_key daily \<and> t_row t = row_slug row"
proof -
  from assms(3,4) have in_rows: "t' \<in> set (buildRows loc a daily)"
    unfolding set_buildRows by blast
  then have "buildRows loc a daily \<noteq> []" by auto
  with assms(1,2) have "\<lparr>dt_label = daily_label daily, dt_rows = buildRows loc a daily\<rparr>
      \<in> set (buildTemplates loc a disabled dailies)"
    unfolding set_buildTemplates by blast
  with in_rows have "(t_daily t', t_row t') \<in>
      {(t_daily t, t_row t) | t. \<exists>tpl\<in>set (buildTemplates loc a disabled dailies). t \<in> set (dt_rows tpl)}"
    by force
  then have "(t_daily t', t_row t') \<in>
      {(t_daily t, t_row t) | t. t \<in> set (renderedRows (collectTemplates loc a disabled dailies))}"
    unfolding rendered_keys .
  with buildRow_keys [OF assms(4)] show ?thesis by auto
qed

text \<open>
  C10: a select or random row whose option list is empty pushes no row template, whatever
  its condition, and no rendered row (flat or in a group) carries its daily key and slug
  when keys and slugs are unique; a combo row whose condition is not false always pushes
  a row template, also with an empty option list, and it is rendered when its daily is
  enabled.
\<close>

theorem empty_options_row_omitted:
  "(row_kind row \<in> {Select, Random} \<and> row_options row = []
      \<longrightarrow> buildRow loc a k row = None \<and>
          (daily \<in> set dailies \<and> row \<in> set (daily_rows daily) \<and>
           distinct (map daily_key dailies) \<and> distinct (map row_slug (daily_rows daily))
           \<longrightarrow> \<not> (\<exists>t\<in>set (renderedRows (collectTemplates loc a disabled dailies)).
                    t_daily t = daily_key daily \<and> t_row t = row_slug row)))
   \<and> (row_kind row = Combo \<and> row_condition row \<noteq> Some False
      \<longrightarrow> buildRow loc a k row \<noteq> None \<and>
          (daily \<in> set dailies \<and> row \<in> set (daily_rows daily) \<and> \<not> disabled (daily_key daily)
           \<longrightarrow> (\<exists>t\<in>set (renderedRows (collectTemplates loc a disabled dailies)).
                    t_daily t = daily_key daily \<and> t_row t = row_slug row)))"
proof (intro conjI impI)
  assume h: "row_kind row \<in> {Select, Random} \<and> row_options row = []"
  then show none: "buildRow loc a k row = None" by (simp add: buildRow_empty_options)
  assume ctx: "daily \<in> set dailies \<and> row \<in> set (daily_rows daily) \<and>
     distinct (map daily_key dailies) \<and> distinct (map row_slug (daily_rows daily))"
  show "\<not> (\<exists>t\<in>set (renderedRows (collectTemplates loc a disabled dailies)).
            t_daily t = daily_key daily \<and> t_row t = row_slug row)"
  proof
    assume "\<exists>t\<in>set (renderedRows (collectTemplates loc a disabled dailies)).
            t_daily t = daily_key daily \<and> t_row t = row_slug row"
    then obtain t where t: "t \<in> set (renderedRows (collectTemplates loc a disabled dailies))"
        "t_daily t = daily_key daily" "t_row t = row_slug row" by blast
    from rendered_from_row [OF t(1)] obtain daily' row' t' where
      o: "daily' \<in> set dailies" "row' \<in> set (daily_rows daily')"
         "buildRow loc a (daily_key daily') row' = Some t'"
         "t_daily t = daily_key daily'" "t_row t = row_slug row'" by blast
    from ctx o(1,4) t(2) have "daily' = daily"
      using distinct_map_eq [of daily_key dailies daily' daily] by simp
    with ctx o(2,5) t(3) have "row' = row"
      using distinct_map_eq [of row_slug "daily_rows daily" row' row] by simp
    with o(3) h show False by (simp add: buildRow_empty_options)
  qed
next
  assume h: "row_kind row = Combo \<and> row_condition row \<noteq> Some False"
  then show "buildRow loc a k row \<noteq> None" by (simp add: buildRow_combo)
  assume ctx: "daily \<in> set dailies \<and> row \<in> set (daily_rows daily) \<and> \<not> disabled (daily_key daily)"
  from h obtain t' where "buildRow loc a (daily_key daily) row = Some t'"
    using buildRow_combo [of row loc a "daily_key daily"] by auto
  with ctx show "\<exists>t\<in>set (renderedRows (collectTemplates loc a disabled dailies)).
            t_daily t = daily_key daily \<and> t_row t = row_slug row"
    using row_rendered by blast
qed

text \<open>C10 on a daily whose select, random and combo rows all have no options.\<close>

theorem empty_options_row_omitted_witness:
  "buildRow id fresh_actor ''tome'' (row_without_options Select ''first'') = None \<and>
   \<not> (\<exists>t\<in>set (renderedRows (collectTemplates id fresh_actor (\<lambda>k. False) [daily_without_options])).
        t_daily t = ''tome'' \<and> t_row t = ''first'') \<and>
   buildRow id fresh_actor ''tome'' (row_without_options Combo ''third'') \<noteq> None \<and>
   (\<exists>t\<in>set (renderedRows (collectTemplates id fresh_actor (\<lambda>k. False) [daily_without_options])).
        t_daily t = ''tome'' \<and> t_row t = ''third'')"
proof -
  have s: "row_kind (row_without_options Select ''first'') \<in> {Select, Random} \<and>
      row_options (row_without_options Select ''first'') = []"
    by (simp add: row_without_options_def)
  have c: "row_kind (row_without_options Combo ''third'') = Combo \<and>
      row_condition (row_without_options Combo ''third'') \<noteq> Some False"
    by (simp add: row_without_options_def)
  have d: "daily_without_options \<in> set [daily_without_options] \<and>
      row_without_options Select ''first'' \<in> set (daily_rows daily_without_options) \<and>
      distinct (map daily_key [daily_without_options]) \<and>
      distinct (map row_slug (daily_rows daily_without_options))"
    by (simp add: daily_without_options_def row_without_options_def)
  have e: "daily_without_options \<in> set [daily_without_options] \<and>
      row_without_options Combo ''third'' \<in> set (daily_rows daily_without_options) \<and>
      \<not> (\<lambda>k. False) (daily_key daily_without_options)"
    by (simp add: daily_without_options_def)
  have k: "daily_key daily_without_options = ''tome''"
    "row_slug (row_without_options Select ''first'') = ''first''"
    "row_slug (row_without_options Combo ''third'') = ''third''"
    by (simp_all add: daily_without_options_def row_without_options_def)
  from s d
    empty_options_row_omitted [of "row_without_options Select ''first''" id fresh_actor "''tome''"
      daily_without_options "[daily_without_options]" "\<lambda>k. False"]
  have one: "buildRow id fresh_actor ''tome'' (row_without_options Select ''first'') = None \<and>
   \<not> (\<exists>t\<in>set (renderedRows (collectTemplates id fresh_actor (\<lambda>k. False) [daily_without_options])).
        t_daily t = ''tome'' \<and> t_row t = ''first'')"
    unfolding k by blast
  from c e
    empty_options_row_omitted [of "row_without_options Combo ''third''" id fresh_actor "''tome''"
      daily_without_options "[daily_without_options]" "\<lambda>k. False"]
  have two: "buildRow id fresh_actor ''tome'' (row_without_options Combo ''third'') \<noteq> None \<and>
   (\<exists>t\<in>set (renderedRows (collectTemplates id fresh_actor (\<lambda>k. False) [daily_without_options])).
        t_daily t = ''tome'' \<and> t_row t = ''third'')"
    unfolding k by blast
  from one two show ?thesis by blast
qed

section \<open>Drop validation of spells\<close>

lemma spell_category_iff:
  "''spell'' \<in> set (spellCategories item) \<longleftrightarrow>
   \<not> sp_isCantrip item \<and> \<not> sp_isFocusSpell item \<and> \<not> sp_isRitual item"
  by (auto simp: spellCategories_def Let_def)

lemma sorted_eq_imp_set_eq: "sort xs = sort ys \<Longrightarrow> set xs = set ys"
  by (metis set_sort)

text \<open>
  C7: with a non-empty category allow-list the validation of a spell succeeds only if the
  allow-list and the item's computed categories are equal as sets; when the sets differ
  the validation fails, and once the rank check is passed it fails with the category
  warning, also when the two sets intersect. When the earlier checks pass, any common
  tradition passes the tradition allow-list: the result is that of the default checks.
  The category "spell" is computed exactly when the item is no cantrip, no focus spell
  and no ritual.
\<close>

theorem spell_category_validation:
  "(cb_category flt \<noteq> [] \<and> validateSpell filterTraits sluggify item flt = Valid
      \<longrightarrow> set (cb_category flt) = set (spellCategories item))
   \<and> (cb_category flt \<noteq> [] \<and> set (cb_category flt) \<noteq> set (spellCategories item)
      \<longrightarrow> validateSpell filterTraits sluggify item flt \<noteq> Valid \<and>
          (cb_rank flt = [] \<or> string_of_nat (sp_rank item) \<in> set (cb_rank flt)
           \<longrightarrow> validateSpell filterTraits sluggify item flt =
                 Invalid (DropDataWarning ''categories'' (Texts (sort (cb_category flt)))
                            (Texts (sort (spellCategories item))))))
   \<and> ((cb_rank flt = [] \<or> string_of_nat (sp_rank item) \<in> set (cb_rank flt)) \<and>
       (cb_category flt = [] \<or> sort (cb_category flt) = sort (spellCategories item)) \<and>
       set (cb_traditions flt) \<inter> set (sp_traditions item) \<noteq> {}
      \<longrightarrow> validateSpell filterTraits sluggify item flt =
            validateDefault filterTraits sluggify item flt)
   \<and> (''spell'' \<in> set (spellCategories item) \<longleftrightarrow>
        \<not> sp_isCantrip item \<and> \<not> sp_isFocusSpell item \<and> \<not> sp_isRitual item)"
proof (intro conjI impI)
  assume "cb_category flt \<noteq> [] \<and> validateSpell filterTraits sluggify item flt = Valid"
  then have "sort (cb_category flt) = sort (spellCategories item)"
    by (auto simp: validateSpell_def Let_def split: if_splits)
  then show "set (cb_category flt) = set (spellCategories item)"
    by (rule sorted_eq_imp_set_eq)
next
  assume h: "cb_category flt \<noteq> [] \<and> set (cb_category flt) \<noteq> set (spellCategories item)"
  then have ne: "sort (cb_category flt) \<noteq> sort (spellCategories item)"
    using sorted_eq_imp_set_eq by blast
  with h show "validateSpell filterTraits sluggify item flt \<noteq> Valid"
    by (simp add: validateSpell_def Let_def)
  assume "cb_rank flt = [] \<or> string_of_nat (sp_rank item) \<in> set (cb_rank flt)"
  with h ne show "validateSpell filterTraits sluggify item flt =
      Invalid (DropDataWarning ''categories'' (Texts (sort (cb_category flt)))
                 (Texts (sort (spellCategories item))))"
    by (auto simp: validateSpell_def Let_def)
next
  assume h: "(cb_rank flt = [] \<or> string_of_nat (sp_rank item) \<in> set (cb_rank flt)) \<and>
       (cb_category flt = [] \<or> sort (cb_category flt) = sort (spellCategories item)) \<and>
       set (cb_traditions flt) \<inter> set (sp_traditions item) \<noteq> {}"
  then have "intersection (cb_traditions flt) (sp_traditions item) \<noteq> []"
    by (auto simp: intersection_def filter_empty_conv)
  with h show "validateSpell filterTraits sluggify item flt =
            validateDefault filterTraits sluggify item flt"
    by (auto simp: validateSpell_def Let_def)
next
  show "''spell'' \<in> set (spellCategories item) \<longleftrightarrow>
        \<not> sp_isCantrip item \<and> \<not> sp_isFocusSpell item \<and> \<not> sp_isRitual item"
    by (rule spell_category_iff)
qed

text \<open>
  C7 on a cantrip: the allow-list (cantrip, focus) intersects its categories and is
  refused with the category warning; the allow-list (cantrip) with the traditions
  (primal, occult), of which the cantrip has one, is accepted.
\<close>

theorem spell_category_validation_witness:
  "validateSpell (\<lambda>_ _ _. True) id arcane_cantrip (filter_of [''cantrip''] [''primal'', ''occult'']) = Valid \<and>
   set [''cantrip''] = set (spellCategories arcane_cantrip) \<and>
   set [''cantrip'', ''focus''] \<inter> set (spellCategories arcane_cantrip) \<noteq> {} \<and>
   validateSpell (\<lambda>_ _ _. True) id arcane_cantrip (filter_of [''cantrip'', ''focus''] []) =
     Invalid (DropDataWarning ''categories'' (Texts [''cantrip'', ''focus'']) (Texts [''cantrip'']))"
proof -
  let ?ft = "\<lambda>(_::string list) (_::(string \<times> bool) list) (_::string). True"
  let ?f1 = "filter_of [''cantrip'', ''focus''] []"
  let ?f2 = "filter_of [''cantrip''] [''primal'', ''occult'']"
  have cats: "spellCategories arcane_cantrip = [''cantrip'']"
    by (simp add: spellCategories_def arcane_cantrip_def)
  have tr: "sp_traditions arcane_cantrip = [''arcane'', ''occult'']"
    by (simp add: arcane_cantrip_def)
  have srt: "sort [''cantrip'', ''focus''] = [''cantrip'', ''focus'']" by code_simp
  have h1: "cb_category ?f1 \<noteq> [] \<and> set (cb_category ?f1) \<noteq> set (spellCategories arcane_cantrip)"
    by (simp add: filter_of_def cats)
  have r1: "cb_rank ?f1 = [] \<or> string_of_nat (sp_rank arcane_cantrip) \<in> set (cb_rank ?f1)"
    by (simp add: filter_of_def)
  have h2: "(cb_rank ?f2 = [] \<or> string_of_nat (sp_rank arcane_cantrip) \<in> set (cb_rank ?f2)) \<and>
       (cb_category ?f2 = [] \<or> sort (cb_category ?f2) = sort (spellCategories arcane_cantrip)) \<and>
       set (cb_traditions ?f2) \<inter> set (sp_traditions arcane_cantrip) \<noteq> {}"
    by (simp add: filter_of_def cats tr)
  have d2: "validateDefault ?ft id arcane_cantrip ?f2 = Valid"
    by (simp add: validateDefault_def filter_of_def)
  from h2 d2 spell_category_validation [of ?f2 ?ft id arcane_cantrip]
  have v2: "validateSpell ?ft id arcane_cantrip ?f2 = Valid" by simp
  have c2: "cb_category ?f2 \<noteq> []" by (simp add: filter_of_def)
  from v2 c2 spell_category_validation [of ?f2 ?ft id arcane_cantrip]
  have s2: "set (cb_category ?f2) = set (spellCategories arcane_cantrip)" by blast
  from h1 r1 spell_category_validation [of ?f1 ?ft id arcane_cantrip]
  have v1: "validateSpell ?ft id arcane_cantrip ?f1 =
      Invalid (DropDataWarning ''categories'' (Texts (sort (cb_category ?f1)))
                 (Texts (sort (spellCategories arcane_cantrip))))" by blast
  have i1: "set [''cantrip'', ''focus''] \<inter> set (spellCategories arcane_cantrip) \<noteq> {}"
    by (simp add: cats)
  from v1 v2 s2 i1 show ?thesis by (simp add: filter_of_def cats srt)
qed

section \<open>Accept\<close>

subsection \<open>Blocked accept\<close>

text \<open>
  C8: when a row element that is not exempt (\<^verbatim>\<open>data-empty\<close> is "false") has a value
  that is empty after trimming, accept does one thing, the warning: nothing is created,
  updated or deleted, no flag is written and no chat message is posted. The labels of
  exactly the blank rows are marked, and the form is neither locked nor closed.
\<close>

theorem accept_blocked_on_blank_row:
  "(\<exists>el\<in>set (f_rowElements html). ds_empty (el_dataset el) = ''false'' \<and> trim (el_value el) = [])
   \<longrightarrow> snd (onAccept h catalog html) = [Warn ''interface.error.empty''] \<and>
       f_emptyLabels (fst (onAccept h catalog html)) =
         map (\<lambda>el. (ds_daily (el_dataset el), ds_row (el_dataset el)))
           (filter (\<lambda>el. ds_empty (el_dataset el) = ''false'' \<and> trim (el_value el) = [])
              (f_rowElements html)) \<and>
       f_rowElements (fst (onAccept h catalog html)) = f_rowElements html \<and>
       f_locked (fst (onAccept h catalog html)) = f_locked html \<and>
       f_closed (fst (onAccept h catalog html)) = f_closed html"
proof
  assume "\<exists>el\<in>set (f_rowElements html). ds_empty (el_dataset el) = ''false'' \<and> trim (el_value el) = []"
  then have "filter (\<lambda>el. ds_empty (el_dataset el) = ''false'' \<and> trim (el_value el) = [])
               (f_rowElements html) \<noteq> []"
    by (simp add: filter_empty_conv)
  then show "snd (onAccept h catalog html) = [Warn ''interface.error.empty''] \<and>
       f_emptyLabels (fst (onAccept h catalog html)) =
         map (\<lambda>el. (ds_daily (el_dataset el), ds_row (el_dataset el)))
           (filter (\<lambda>el. ds_empty (el_dataset el) = ''false'' \<and> trim (el_value el) = [])
              (f_rowElements html)) \<and>
       f_rowElements (fst (onAccept h catalog html)) = f_rowElements html \<and>
       f_locked (fst (onAccept h catalog html)) = f_locked html \<and>
       f_closed (fst (onAccept h catalog html)) = f_closed html"
    by (simp add: onAccept_def Let_def)
qed

lemma trim_blank: "trim '' '' = []"
  by (simp add: trim_def is_space_def)

text \<open>C8 on a form whose only row is a required select with a blank value.\<close>

theorem accept_blocked_on_blank_row_witness:
  "snd (onAccept plain_host [''skill'' \<mapsto> quiet_process] blank_form) = [Warn ''interface.error.empty''] \<and>
   f_emptyLabels (fst (onAccept plain_host [''skill'' \<mapsto> quiet_process] blank_form)) = [(''skill'', ''first'')] \<and>
   f_locked (fst (onAccept plain_host [''skill'' \<mapsto> quiet_process] blank_form)) = False \<and>
   f_closed (fst (onAccept plain_host [''skill'' \<mapsto> quiet_process] blank_form)) = False"
proof -
  have "\<exists>el\<in>set (f_rowElements blank_form).
          ds_empty (el_dataset el) = ''false'' \<and> trim (el_value el) = []"
    by (simp add: blank_form_def element_of_def trim_blank)
  with accept_blocked_on_blank_row [of blank_form plain_host "[''skill'' \<mapsto> quiet_process]"]
  show ?thesis by (simp add: blank_form_def element_of_def trim_blank)
qed

subsection \<open>Saved rows\<close>

lemma rowValue_types:
  "rowValue pick el = Some v \<Longrightarrow> ds_type (el_dataset el) \<notin> {Alert, Notify}"
  by (auto simp: rowValue_def Let_def split: if_splits)

lemma collectRows_saved:
  assumes "collectRows pick els (dailies, saved) = (dailies', saved')"
      and "saved' d = Some rows" "rows slug = Some v"
  shows "(\<exists>rows0. saved d = Some rows0 \<and> rows0 slug = Some v) \<or>
         (\<exists>el\<in>set els. ds_daily (el_dataset el) = d \<and> ds_row (el_dataset el) = slug \<and>
            ds_save (el_dataset el) = ''true'' \<and> rowValue pick el = Some v)"
  using assms
proof (induction els arbitrary: dailies saved)
  case Nil
  then show ?case by simp
next
  case (Cons el els)
  show ?case
  proof (cases "rowValue pick el")
    case None
    with Cons.prems have "collectRows pick els (dailies, saved) = (dailies', saved')" by simp
    from Cons.IH [OF this Cons.prems(2,3)] show ?thesis by auto
  next
    case (Some row)
    let ?d = "el_dataset el"
    let ?dailies1 = "upsert (ds_daily ?d) (\<lambda>rows. rows(ds_row ?d \<mapsto> row))
                      (Map.empty(ds_row ?d \<mapsto> row)) dailies"
    let ?saved1 = "(if ds_save ?d = ''true''
                 then saved(ds_daily ?d \<mapsto>
                        (case saved (ds_daily ?d) of None \<Rightarrow> Map.empty | Some m \<Rightarrow> m)(ds_row ?d \<mapsto> row))
                 else saved)"
    from Some Cons.prems(1) have "collectRows pick els (?dailies1, ?saved1) = (dailies', saved')"
      by (simp add: Let_def)
    from Cons.IH [OF this Cons.prems(2,3)] consider
      (old) rows0 where "?saved1 d = Some rows0" "rows0 slug = Some v"
    | (new) el' where "el' \<in> set els" "ds_daily (el_dataset el') = d" "ds_row (el_dataset el') = slug"
        "ds_save (el_dataset el') = ''true''" "rowValue pick el' = Some v"
      by blast
    then show ?thesis
    proof cases
      case old
      show ?thesis
      proof (cases "ds_save ?d = ''true'' \<and> ds_daily ?d = d \<and> ds_row ?d = slug")
        case True
        with old have "v = row" by (auto split: option.splits)
        with True Some show ?thesis by auto
      next
        case False
        with old have "\<exists>rows0. saved d = Some rows0 \<and> rows0 slug = Some v"
          by (auto split: if_splits option.splits)
        then show ?thesis by blast
      qed
    next
      case new
      then show ?thesis by auto
    qed
  qed
qed

lemma flagUpdate_rows:
  "flagUpdate saved extra ids d = Some (FlagRows rows) \<Longrightarrow> saved d = Some rows"
  by (auto simp: flagUpdate_def split: if_splits)

lemma commit_UpdateFlag:
  "UpdateFlag p \<in> set (commit h saved cx) \<longleftrightarrow>
   p = flagUpdate saved (cx_extraFlags cx)
         (map ci_id (if reconcileAdded h (cx_addedItems cx) \<noteq> []
                     then createEmbeddedDocuments h (reconcileAdded h (cx_addedItems cx)) else []))"
  by (auto simp: commit_def Let_def)

lemma runCallbacks_log:
  "runCallbacks catalog ds cx log rejected = Inr (cx', log', rejected') \<Longrightarrow>
   e \<in> set log' \<Longrightarrow>
   e \<in> set log \<or> (\<exists>s. e = ErrorNotification s) \<or> (\<exists>k. e = ConsoleError k)"
proof (induction ds arbitrary: cx log rejected)
  case Nil
  then show ?case by simp
next
  case (Cons kr ds)
  obtain key rows where kr: "kr = (key, rows)" by (cases kr)
  from Cons.prems(1) obtain process where p: "catalog key = Some process"
    unfolding kr by (auto split: option.splits)
  obtain actions out where r: "process rows = (actions, out)" by (cases "process rows")
  show ?case
  proof (cases out)
    case Returned
    with Cons.prems(1) p r have
      "runCallbacks catalog ds (foldl applyAction cx actions) log rejected = Inr (cx', log', rejected')"
      unfolding kr by simp
    from Cons.IH [OF this Cons.prems(2)] show ?thesis .
  next
    case Threw
    with Cons.prems(1) p r have
      "runCallbacks catalog ds (foldl applyAction cx actions)
         (log @ [ErrorNotification ''error.unexpected'', ConsoleError key]) rejected =
       Inr (cx', log', rejected')"
      unfolding kr by simp
    from Cons.IH [OF this Cons.prems(2)] show ?thesis by auto
  next
    case Rejected
    with Cons.prems(1) p r have
      "runCallbacks catalog ds (foldl applyAction cx actions) log True = Inr (cx', log', rejected')"
      unfolding kr by simp
    from Cons.IH [OF this Cons.prems(2)] show ?thesis .
  qed
qed

lemma buildRow_dataset:
  "buildRow loc a k row = Some t \<Longrightarrow>
   ds_type (t_data t) = row_kind row \<and> ds_daily (t_data t) = k \<and> ds_row (t_data t) = row_slug row \<and>
   (row_save row = Some False \<or> row_kind row = Alert \<longrightarrow> ds_save (t_data t) = ''false'')"
  by (auto simp: buildRow_def Let_def stringBoolean_def split: if_splits prod.splits)

lemma processDailies_saved:
  assumes "processDailies h catalog rowElements = Inr done"
  shows "\<exists>payload. UpdateFlag payload \<in> set done \<and> (\<forall>p. UpdateFlag p \<in> set done \<longrightarrow> p = payload) \<and>
           (\<forall>d slug rows v. payload d = Some (FlagRows rows) \<and> rows slug = Some v \<longrightarrow>
              (\<exists>el\<in>set rowElements. ds_daily (el_dataset el) = d \<and> ds_row (el_dataset el) = slug \<and>
                 ds_save (el_dataset el) = ''true'' \<and> ds_type (el_dataset el) \<notin> {Alert, Notify} \<and>
                 rowValue (h_selectRandomOption h) el = Some v))"
proof -
  obtain dailies saved where c:
    "collectRows (h_selectRandomOption h) rowElements ([], Map.empty) = (dailies, saved)"
    by (cases "collectRows (h_selectRandomOption h) rowElements ([], Map.empty)")
  from assms c have run:
    "(case runCallbacks catalog dailies initialContext [] False of
        Inl failure \<Rightarrow> Inl failure
      | Inr (cx, log, rejected) \<Rightarrow>
          if rejected then Inl (UnhandledRejection, log) else Inr (log @ commit h saved cx)) =
     Inr done"
    by (simp add: processDailies_def)
  obtain cx log where r:
    "runCallbacks catalog dailies initialContext [] False = Inr (cx, log, False)"
    "done = log @ commit h saved cx"
  proof (cases "runCallbacks catalog dailies initialContext [] False")
    case (Inl failure)
    with run show ?thesis by simp
  next
    case (Inr res)
    obtain cx log rejected where res: "res = (cx, log, rejected)" by (cases res)
    show ?thesis
    proof (cases rejected)
      case True
      with run Inr res show ?thesis by simp
    next
      case False
      with run Inr res have "done = log @ commit h saved cx" by simp
      with Inr res False that show ?thesis by simp
    qed
  qed
  let ?ids = "map ci_id (if reconcileAdded h (cx_addedItems cx) \<noteq> []
                     then createEmbeddedDocuments h (reconcileAdded h (cx_addedItems cx)) else [])"
  let ?payload = "flagUpdate saved (cx_extraFlags cx) ?ids"
  have in_commit: "UpdateFlag ?payload \<in> set (commit h saved cx)"
    by (simp add: commit_UpdateFlag)
  have not_log: "UpdateFlag p \<notin> set log" for p
    using runCallbacks_log [OF r(1), of "UpdateFlag p"] by auto
  have only: "\<forall>p. UpdateFlag p \<in> set done \<longrightarrow> p = ?payload"
  proof (intro allI impI)
    fix p assume "UpdateFlag p \<in> set done"
    with not_log [of p] have "UpdateFlag p \<in> set (commit h saved cx)" by (simp add: r(2))
    then show "p = ?payload" by (simp only: commit_UpdateFlag)
  qed
  have rows: "\<forall>d slug rows v. ?payload d = Some (FlagRows rows) \<and> rows slug = Some v \<longrightarrow>
              (\<exists>el\<in>set rowElements. ds_daily (el_dataset el) = d \<and> ds_row (el_dataset el) = slug \<and>
                 ds_save (el_dataset el) = ''true'' \<and> ds_type (el_dataset el) \<notin> {Alert, Notify} \<and>
                 rowValue (h_selectRandomOption h) el = Some v)"
  proof (intro allI impI)
    fix d slug rows v
    assume h: "?payload d = Some (FlagRows rows) \<and> rows slug = Some v"
    then have "saved d = Some rows" by (auto dest: flagUpdate_rows)
    from collectRows_saved [OF c this, of slug v] h obtain el where
      el: "el \<in> set rowElements" "ds_daily (el_dataset el) = d" "ds_row (el_dataset el) = slug"
        "ds_save (el_dataset el) = ''true''" "rowValue (h_selectRandomOption h) el = Some v"
      by auto
    from rowValue_types [OF el(5)] el
    show "\<exists>el\<in>set rowElements. ds_daily (el_dataset el) = d \<and> ds_row (el_dataset el) = slug \<and>
                 ds_save (el_dataset el) = ''true'' \<and> ds_type (el_dataset el) \<notin> {Alert, Notify} \<and>
                 rowValue (h_selectRandomOption h) el = Some v"
      by blast
  qed
  from in_commit have "UpdateFlag ?payload \<in> set done" by (simp add: r(2))
  with only rows show ?thesis by (intro exI [of _ ?payload] conjI)
qed

text \<open>
  C6: when \<^verbatim>\<open>#processDailies\<close> runs to its end it makes exactly one flag update, and
  a value stands in it under (daily key, row slug) only for a row element whose dataset
  says \<^verbatim>\<open>save\<close> is "true" and whose type is neither alert nor notify, and the value is
  the one read from that element. So for every row element that is not saved, or is an
  alert or a notify row, nothing is written under its daily key and slug (no other
  element sharing them). At render, a row with \<^verbatim>\<open>save = false\<close> and every alert row
  get a dataset whose \<^verbatim>\<open>save\<close> is "false". The statement is about the update handed to
  \<^verbatim>\<open>updateFlag\<close>; how the actor's store applies it is outside the module.
\<close>

theorem only_saved_rows_persist:
  "(processDailies h catalog rowElements = Inr done \<longrightarrow>
     (\<exists>payload. UpdateFlag payload \<in> set done \<and> (\<forall>p. UpdateFlag p \<in> set done \<longrightarrow> p = payload) \<and>
        (\<forall>d slug rows v. payload d = Some (FlagRows rows) \<and> rows slug = Some v \<longrightarrow>
           (\<exists>el\<in>set rowElements. ds_daily (el_dataset el) = d \<and> ds_row (el_dataset el) = slug \<and>
              ds_save (el_dataset el) = ''true'' \<and> ds_type (el_dataset el) \<notin> {Alert, Notify} \<and>
              rowValue (h_selectRandomOption h) el = Some v)) \<and>
        (\<forall>el\<in>set rowElements.
           (ds_save (el_dataset el) \<noteq> ''true'' \<or> ds_type (el_dataset el) \<in> {Alert, Notify}) \<and>
           (\<forall>el'\<in>set rowElements.
              ds_daily (el_dataset el') = ds_daily (el_dataset el) \<and>
              ds_row (el_dataset el') = ds_row (el_dataset el) \<longrightarrow> el' = el) \<longrightarrow>
           \<not> (\<exists>rows v. payload (ds_daily (el_dataset el)) = Some (FlagRows rows) \<and>
                  rows (ds_row (el_dataset el)) = Some v))))
   \<and> (buildRow loc a k row = Some t \<longrightarrow>
        ds_type (t_data t) = row_kind row \<and> ds_daily (t_data t) = k \<and>
        ds_row (t_data t) = row_slug row \<and>
        (row_save row = Some False \<or> row_kind row = Alert \<longrightarrow> ds_save (t_data t) = ''false''))"
proof (intro conjI impI)
  assume "processDailies h catalog rowElements = Inr done"
  from processDailies_saved [OF this] obtain payload where
    p: "UpdateFlag payload \<in> set done" "\<forall>p. UpdateFlag p \<in> set done \<longrightarrow> p = payload"
       "\<forall>d slug rows v. payload d = Some (FlagRows rows) \<and> rows slug = Some v \<longrightarrow>
           (\<exists>el\<in>set rowElements. ds_daily (el_dataset el) = d \<and> ds_row (el_dataset el) = slug \<and>
              ds_save (el_dataset el) = ''true'' \<and> ds_type (el_dataset el) \<notin> {Alert, Notify} \<and>
              rowValue (h_selectRandomOption h) el = Some v)"
    by blast
  have "\<forall>el\<in>set rowElements.
           (ds_save (el_dataset el) \<noteq> ''true'' \<or> ds_type (el_dataset el) \<in> {Alert, Notify}) \<and>
           (\<forall>el'\<in>set rowElements.
              ds_daily (el_dataset el') = ds_daily (el_dataset el) \<and>
              ds_row (el_dataset el') = ds_row (el_dataset el) \<longrightarrow> el' = el) \<longrightarrow>
           \<not> (\<exists>rows v. payload (ds_daily (el_dataset el)) = Some (FlagRows rows) \<and>
                  rows (ds_row (el_dataset el)) = Some v)"
  proof (intro ballI impI notI)
    fix el
    assume el: "el \<in> set rowElements"
      and h: "(ds_save (el_dataset el) \<noteq> ''true'' \<or> ds_type (el_dataset el) \<in> {Alert, Notify}) \<and>
           (\<forall>el'\<in>set rowElements.
              ds_daily (el_dataset el') = ds_daily (el_dataset el) \<and>
              ds_row (el_dataset el') = ds_row (el_dataset el) \<longrightarrow> el' = el)"
      and ex: "\<exists>rows v. payload (ds_daily (el_dataset el)) = Some (FlagRows rows) \<and>
                  rows (ds_row (el_dataset el)) = Some v"
    from ex p(3) obtain el' where el': "el' \<in> set rowElements"
        "ds_daily (el_dataset el') = ds_daily (el_dataset el)"
        "ds_row (el_dataset el') = ds_row (el_dataset el)"
        "ds_save (el_dataset el') = ''true''" "ds_type (el_dataset el') \<notin> {Alert, Notify}"
      by blast
    with h have "el' = el" by blast
    with el' h show False by blast
  qed
  with p show "\<exists>payload. UpdateFlag payload \<in> set done \<and> (\<forall>p. UpdateFlag p \<in> set done \<longrightarrow> p = payload) \<and>
        (\<forall>d slug rows v. payload d = Some (FlagRows rows) \<and> rows slug = Some v \<longrightarrow>
           (\<exists>el\<in>set rowElements. ds_daily (el_dataset el) = d \<and> ds_row (el_dataset el) = slug \<and>
              ds_save (el_dataset el) = ''true'' \<and> ds_type (el_dataset el) \<notin> {Alert, Notify} \<and>
              rowValue (h_selectRandomOption h) el = Some v)) \<and>
        (\<forall>el\<in>set rowElements.
           (ds_save (el_dataset el) \<noteq> ''true'' \<or> ds_type (el_dataset el) \<in> {Alert, Notify}) \<and>
           (\<forall>el'\<in>set rowElements.
              ds_daily (el_dataset el') = ds_daily (el_dataset el) \<and>
              ds_row (el_dataset el') = ds_row (el_dataset el) \<longrightarrow> el' = el) \<longrightarrow>
           \<not> (\<exists>rows v. payload (ds_daily (el_dataset el)) = Some (FlagRows rows) \<and>
                  rows (ds_row (el_dataset el)) = Some v))"
    by blast
next
  assume b: "buildRow loc a k row = Some t"
  from buildRow_dataset [OF b] show "ds_type (t_data t) = row_kind row" by simp
  from buildRow_dataset [OF b] show "ds_daily (t_data t) = k" by simp
  from buildRow_dataset [OF b] show "ds_row (t_data t) = row_slug row" by simp
  assume "row_save row = Some False \<or> row_kind row = Alert"
  with buildRow_dataset [OF b] show "ds_save (t_data t) = ''false''" by simp
qed

lemma mixed_rows_run:
  "\<exists>done. processDailies plain_host [''skill'' \<mapsto> quiet_process] mixed_rows = Inr done"
  by (simp add: processDailies_def mixed_rows_def element_of_def rowValue_def plain_host_def
      quiet_process_def Let_def)

lemma mixed_rows_unsaved:
  "el \<in> set (tl mixed_rows) \<Longrightarrow>
   el \<in> set mixed_rows \<and>
   (ds_save (el_dataset el) \<noteq> ''true'' \<or> ds_type (el_dataset el) \<in> {Alert, Notify}) \<and>
   (\<forall>el'\<in>set mixed_rows.
      ds_daily (el_dataset el') = ds_daily (el_dataset el) \<and>
      ds_row (el_dataset el') = ds_row (el_dataset el) \<longrightarrow> el' = el)"
  by (auto simp: mixed_rows_def element_of_def)

text \<open>C6 on a form with a saved select, an unsaved input, an alert and a notify row.\<close>

theorem only_saved_rows_persist_witness:
  "\<exists>done payload.
     processDailies plain_host [''skill'' \<mapsto> quiet_process] mixed_rows = Inr done \<and>
     UpdateFlag payload \<in> set done \<and>
     \<not> (\<exists>rows v. payload ''skill'' = Some (FlagRows rows) \<and> rows ''second'' = Some v) \<and>
     \<not> (\<exists>rows v. payload ''skill'' = Some (FlagRows rows) \<and> rows ''third'' = Some v) \<and>
     \<not> (\<exists>rows v. payload ''skill'' = Some (FlagRows rows) \<and> rows ''fourth'' = Some v)"
proof -
  let ?cat = "[''skill'' \<mapsto> quiet_process]"
  from mixed_rows_run obtain "done" where
    run: "processDailies plain_host ?cat mixed_rows = Inr done" by blast
  note inst = only_saved_rows_persist [of plain_host ?cat mixed_rows "done", THEN conjunct1, THEN mp, OF run]
  then obtain payload where pq:
    "UpdateFlag payload \<in> set done \<and> (\<forall>p. UpdateFlag p \<in> set done \<longrightarrow> p = payload) \<and>
        (\<forall>d slug rows v. payload d = Some (FlagRows rows) \<and> rows slug = Some v \<longrightarrow>
           (\<exists>el\<in>set mixed_rows. ds_daily (el_dataset el) = d \<and> ds_row (el_dataset el) = slug \<and>
              ds_save (el_dataset el) = ''true'' \<and> ds_type (el_dataset el) \<notin> {Alert, Notify} \<and>
              rowValue (h_selectRandomOption plain_host) el = Some v)) \<and>
        (\<forall>el\<in>set mixed_rows.
           (ds_save (el_dataset el) \<noteq> ''true'' \<or> ds_type (el_dataset el) \<in> {Alert, Notify}) \<and>
           (\<forall>el'\<in>set mixed_rows.
              ds_daily (el_dataset el') = ds_daily (el_dataset el) \<and>
              ds_row (el_dataset el') = ds_row (el_dataset el) \<longrightarrow> el' = el) \<longrightarrow>
           \<not> (\<exists>rows v. payload (ds_daily (el_dataset el)) = Some (FlagRows rows) \<and>
                  rows (ds_row (el_dataset el)) = Some v))" ..
  then have p: "UpdateFlag payload \<in> set done" by (rule conjunct1)
  from pq have q: "\<forall>el\<in>set mixed_rows.
           (ds_save (el_dataset el) \<noteq> ''true'' \<or> ds_type (el_dataset el) \<in> {Alert, Notify}) \<and>
           (\<forall>el'\<in>set mixed_rows.
              ds_daily (el_dataset el') = ds_daily (el_dataset el) \<and>
              ds_row (el_dataset el') = ds_row (el_dataset el) \<longrightarrow> el' = el) \<longrightarrow>
           \<not> (\<exists>rows v. payload (ds_daily (el_dataset el)) = Some (FlagRows rows) \<and>
                  rows (ds_row (el_dataset el)) = Some v)"
    by (elim conjE)
  have none: "\<not> (\<exists>rows v. payload (ds_daily (el_dataset el)) = Some (FlagRows rows) \<and>
                  rows (ds_row (el_dataset el)) = Some v)"
    if "el \<in> set (tl mixed_rows)" for el
  proof -
    from mixed_rows_unsaved [OF that] have "el \<in> set mixed_rows" by (rule conjunct1)
    from bspec [OF q this] mixed_rows_unsaved [OF that] show ?thesis by (elim conjE impE) simp_all
  qed
  have "\<not> (\<exists>rows v. payload ''skill'' = Some (FlagRows rows) \<and> rows ''second'' = Some v)"
    using none [of "element_of Input ''skill'' ''second'' ''false'' ''true'' ''a note''"]
    by (simp add: mixed_rows_def element_of_def)
  moreover have "\<not> (\<exists>rows v. payload ''skill'' = Some (FlagRows rows) \<and> rows ''third'' = Some v)"
    using none [of "element_of Alert ''skill'' ''third'' ''false'' ''false'' ''beware''"]
    by (simp add: mixed_rows_def element_of_def)
  moreover have "\<not> (\<exists>rows v. payload ''skill'' = Some (FlagRows rows) \<and> rows ''fourth'' = Some v)"
    using none [of "element_of Notify ''skill'' ''fourth'' ''true'' ''true'' ''hello''"]
    by (simp add: mixed_rows_def element_of_def)
  ultimately show ?thesis using run p by (intro exI [of _ "done"] exI [of _ payload] conjI)
qed

section \<open>Accept: the chat summary\<close>

subsection \<open>Chat summary\<close>

lemma notAfter_total: "notAfter a b \<or> notAfter b a"
  by (auto simp: notAfter_def split: priority.splits)

lemma notAfter_trans: "notAfter a b \<Longrightarrow> notAfter b c \<Longrightarrow> notAfter a c"
  by (auto simp: notAfter_def split: priority.splits)

lemma sorted_insertSorted:
  "sorted_wrt notAfter ys \<Longrightarrow> sorted_wrt notAfter (insertSorted notAfter x ys)"
proof (induction ys)
  case Nil
  then show ?case by simp
next
  case (Cons y ys)
  show ?case
  proof (cases "notAfter x y")
    case True
    have "\<forall>z\<in>set ys. notAfter x z"
    proof
      fix z assume "z \<in> set ys"
      with Cons.prems have "notAfter y z" by simp
      with True show "notAfter x z" by (rule notAfter_trans)
    qed
    with True Cons.prems show ?thesis by simp
  next
    case False
    then have "notAfter y x" using notAfter_total [of x y] by blast
    moreover from Cons have "sorted_wrt notAfter (insertSorted notAfter x ys)" by simp
    ultimately show ?thesis using False Cons.prems
      by (simp add: set_insertSorted)
  qed
qed

lemma sorted_stableSort: "sorted_wrt notAfter (stableSort notAfter xs)"
  by (induction xs) (simp_all add: stableSort_def sorted_insertSorted)

lemma stableSort_Cons: "stableSort before (x # xs) = insertSorted before x (stableSort before xs)"
  by (simp add: stableSort_def)

lemma insertSorted_first: "\<forall>y. before x y \<Longrightarrow> insertSorted before x ys = x # ys"
  by (cases ys) simp_all

lemma stableSort_Nil_iff: "stableSort before xs = [] \<longleftrightarrow> xs = []"
  using set_stableSort [of before xs] by (metis set_empty)

lemma chatSections_preface:
  "chatSections h cx =
     \<lparr>cg_message = h_localize h
        (if map (\<lambda>(message, order). \<lparr>cg_message = ''<p>'' @ message @ ''</p>'', cg_order = Finite order\<rparr>)
              (cx_rawMessages cx) @ List.map_filter (renderGroup h) (cx_messageGroups cx) \<noteq> []
         then ''message.changes'' else ''message.noChanges''),
       cg_order = Infinity\<rparr> #
     stableSort notAfter
       (map (\<lambda>(message, order). \<lparr>cg_message = ''<p>'' @ message @ ''</p>'', cg_order = Finite order\<rparr>)
              (cx_rawMessages cx) @ List.map_filter (renderGroup h) (cx_messageGroups cx))"
  unfolding chatSections_def Let_def stableSort_Cons
  by (rule insertSorted_first) (simp add: notAfter_def)

lemma section_finite:
  assumes "s \<in> set (map (\<lambda>(message, order). \<lparr>cg_message = ''<p>'' @ message @ ''</p>'', cg_order = Finite order\<rparr>)
              (cx_rawMessages cx) @ List.map_filter (renderGroup h) (cx_messageGroups cx))"
  shows "cg_order s = Finite (orderValue s)"
proof -
  from assms consider
    (raw) m n where "s = \<lparr>cg_message = ''<p>'' @ m @ ''</p>'', cg_order = Finite n\<rparr>"
  | (grp) e where "renderGroup h e = Some s"
    by (auto simp: set_map_filter)
  then show ?thesis
  proof cases
    case raw
    then show ?thesis by (simp add: orderValue_def)
  next
    case grp
    then show ?thesis
      by (auto simp: renderGroup_def Let_def orderValue_def split: prod.splits if_splits)
  qed
qed

lemma sorted_finite:
  "sorted_wrt notAfter xs \<Longrightarrow> \<forall>s\<in>set xs. cg_order s = Finite (orderValue s) \<Longrightarrow>
   sorted_wrt (\<lambda>m n. m \<ge> n) (map orderValue xs)"
proof (induction xs)
  case Nil
  then show ?case by simp
next
  case (Cons x xs)
  have "\<forall>y\<in>set xs. orderValue x \<ge> orderValue y"
  proof
    fix y assume y: "y \<in> set xs"
    with Cons.prems(1) have "notAfter x y" by simp
    moreover from Cons.prems(2) y have "cg_order x = Finite (orderValue x)" "cg_order y = Finite (orderValue y)"
      by simp_all
    ultimately show "orderValue x \<ge> orderValue y" by (simp add: notAfter_def)
  qed
  with Cons show ?case by simp
qed

lemma default_group_orders:
  "map (\<lambda>(name, g). (name, mg_order g)) (cx_messageGroups initialContext) =
     [(''languages'', 80), (''skills'', 70), (''resistances'', 60), (''feats'', 50),
      (''spells'', 40), (''scrolls'', 30)]"
  by (simp add: initialContext_def)

lemma commit_ChatMessageCreate:
  "ChatMessageCreate c \<in> set (commit h saved cx) \<longleftrightarrow> c = chatContent h cx"
  by (auto simp: commit_def Let_def)

lemma length_stableSort: "length (stableSort before xs) = length xs"
proof (induction xs)
  case Nil
  show ?case by (simp add: stableSort_def)
next
  case (Cons x xs)
  have "length (insertSorted before x ys) = Suc (length ys)" for ys
    by (induction ys) simp_all
  with Cons show ?case by (simp add: stableSort_Cons)
qed

text \<open>
  C9: the sections of the summary are the preface followed by the other sections (one per
  raw message and one per message group that has entries) in descending order of their
  numbers. The preface has the order \<^verbatim>\<open>Infinity\<close>, and reads "changes" when there is
  another section and "no changes" otherwise. The groups that exist from the start have
  the orders 80, 70, 60, 50, 40 and 30, and a raw message added without an order has the
  order 1. The commit posts one chat message, whose content is the sections joined in
  that order.
\<close>

theorem chat_summary_order:
  "(\<exists>preface rest. chatSections h cx = preface # rest \<and> cg_order preface = Infinity \<and>
      cg_message preface =
        h_localize h (if rest \<noteq> [] then ''message.changes'' else ''message.noChanges'') \<and>
      set rest =
        set (map (\<lambda>(message, order). \<lparr>cg_message = ''<p>'' @ message @ ''</p>'', cg_order = Finite order\<rparr>)
               (cx_rawMessages cx) @ List.map_filter (renderGroup h) (cx_messageGroups cx)) \<and>
      length rest =
        length (cx_rawMessages cx) + length (List.map_filter (renderGroup h) (cx_messageGroups cx)) \<and>
      map cg_order rest = map (\<lambda>s. Finite (orderValue s)) rest \<and>
      sorted_wrt (\<lambda>m n. m \<ge> n) (map orderValue rest))
   \<and> map (\<lambda>(name, g). (name, mg_order g)) (cx_messageGroups initialContext) =
       [(''languages'', 80), (''skills'', 70), (''resistances'', 60), (''feats'', 50),
        (''spells'', 40), (''scrolls'', 30)]
   \<and> cx_rawMessages (applyAction cx (MessagesAddRaw message None)) = cx_rawMessages cx @ [(message, 1)]
   \<and> (\<forall>c. ChatMessageCreate c \<in> set (commit h saved cx) \<longleftrightarrow> c = chatContent h cx)
   \<and> chatContent h cx =
       ''<div class='' @ [CHR 0x22] @ ''pf2e-dailies-summary'' @ [CHR 0x22] @ ''>'' @
       join ''<hr />'' (map cg_message (chatSections h cx)) @ ''</div>''"
proof (intro conjI allI)
  let ?groups = "map (\<lambda>(message, order). \<lparr>cg_message = ''<p>'' @ message @ ''</p>'', cg_order = Finite order\<rparr>)
               (cx_rawMessages cx) @ List.map_filter (renderGroup h) (cx_messageGroups cx)"
  let ?rest = "stableSort notAfter ?groups"
  let ?preface = "\<lparr>cg_message = h_localize h (if ?groups \<noteq> [] then ''message.changes'' else ''message.noChanges''),
       cg_order = Infinity\<rparr>"
  have eq: "chatSections h cx = ?preface # ?rest" by (rule chatSections_preface)
  have ne: "?rest \<noteq> [] \<longleftrightarrow> ?groups \<noteq> []" by (simp only: stableSort_Nil_iff)
  have fin: "\<forall>s\<in>set ?rest. cg_order s = Finite (orderValue s)"
    unfolding set_stableSort using section_finite by blast
  have "map cg_order ?rest = map (\<lambda>s. Finite (orderValue s)) ?rest"
    using fin by (intro map_cong) simp_all
  moreover have "sorted_wrt (\<lambda>m n. m \<ge> n) (map orderValue ?rest)"
    using sorted_stableSort fin by (rule sorted_finite)
  moreover have "cg_message ?preface =
      h_localize h (if ?rest \<noteq> [] then ''message.changes'' else ''message.noChanges'')"
    using ne by simp
  moreover have "length ?rest =
      length (cx_rawMessages cx) + length (List.map_filter (renderGroup h) (cx_messageGroups cx))"
    by (simp add: length_stableSort)
  moreover have "set ?rest = set ?groups" by (rule set_stableSort)
  ultimately show "\<exists>preface rest. chatSections h cx = preface # rest \<and> cg_order preface = Infinity \<and>
      cg_message preface =
        h_localize h (if rest \<noteq> [] then ''message.changes'' else ''message.noChanges'') \<and>
      set rest = set ?groups \<and>
      length rest =
        length (cx_rawMessages cx) + length (List.map_filter (renderGroup h) (cx_messageGroups cx)) \<and>
      map cg_order rest = map (\<lambda>s. Finite (orderValue s)) rest \<and>
      sorted_wrt (\<lambda>m n. m \<ge> n) (map orderValue rest)"
    using eq by (intro exI [of _ ?preface] exI [of _ ?rest] conjI) simp_all
next
  show "map (\<lambda>(name, g). (name, mg_order g)) (cx_messageGroups initialContext) =
       [(''languages'', 80), (''skills'', 70), (''resistances'', 60), (''feats'', 50),
        (''spells'', 40), (''scrolls'', 30)]"
    by (rule default_group_orders)
next
  show "cx_rawMessages (applyAction cx (MessagesAddRaw message None)) = cx_rawMessages cx @ [(message, 1)]"
    by simp
next
  fix c show "ChatMessageCreate c \<in> set (commit h saved cx) \<longleftrightarrow> c = chatContent h cx"
    by (rule commit_ChatMessageCreate)
next
  show "chatContent h cx =
       ''<div class='' @ [CHR 0x22] @ ''pf2e-dailies-summary'' @ [CHR 0x22] @ ''>'' @
       join ''<hr />'' (map cg_message (chatSections h cx)) @ ''</div>''"
    by (simp add: chatContent_def)
qed

lemma summary_sections:
  "map (\<lambda>s. (cg_message s, cg_order s)) (chatSections plain_host summary_context) =
     [(''message.changes'', Infinity),
      (''<p><strong>skills</strong></p><p> Athletics</p>'', Finite 70),
      (''<p><strong>feats</strong></p><p> Toughness</p>'', Finite 50),
      (''<p>rested</p>'', Finite 1)]"
  by code_simp

text \<open>
  C9 on the example of the claim: entries in the groups feats (50) and skills (70) and
  one raw message give the preface, then skills, then feats, then the raw message.
\<close>

theorem chat_summary_order_witness:
  "map (\<lambda>s. (cg_message s, cg_order s)) (chatSections plain_host summary_context) =
     [(''message.changes'', Infinity),
      (''<p><strong>skills</strong></p><p> Athletics</p>'', Finite 70),
      (''<p><strong>feats</strong></p><p> Toughness</p>'', Finite 50),
      (''<p>rested</p>'', Finite 1)] \<and>
   sorted_wrt (\<lambda>m n. m \<ge> n) (map orderValue (tl (chatSections plain_host summary_context)))"
proof -
  note inst = chat_summary_order [of plain_host summary_context, THEN conjunct1]
  then obtain preface where "\<exists>rest. chatSections plain_host summary_context = preface # rest \<and>
      cg_order preface = Infinity \<and>
      cg_message preface =
        h_localize plain_host (if rest \<noteq> [] then ''message.changes'' else ''message.noChanges'') \<and>
      set rest =
        set (map (\<lambda>(message, order). \<lparr>cg_message = ''<p>'' @ message @ ''</p>'', cg_order = Finite order\<rparr>)
               (cx_rawMessages summary_context) @
             List.map_filter (renderGroup plain_host) (cx_messageGroups summary_context)) \<and>
      length rest =
        length (cx_rawMessages summary_context) +
        length (List.map_filter (renderGroup plain_host) (cx_messageGroups summary_context)) \<and>
      map cg_order rest = map (\<lambda>s. Finite (orderValue s)) rest \<and>
      sorted_wrt (\<lambda>m n. m \<ge> n) (map orderValue rest)" ..
  then obtain rest where r: "chatSections plain_host summary_context = preface # rest \<and>
      cg_order preface = Infinity \<and>
      cg_message preface =
        h_localize plain_host (if rest \<noteq> [] then ''message.changes'' else ''message.noChanges'') \<and>
      set rest =
        set (map (\<lambda>(message, order). \<lparr>cg_message = ''<p>'' @ message @ ''</p>'', cg_order = Finite order\<rparr>)
               (cx_rawMessages summary_context) @
             List.map_filter (renderGroup plain_host) (cx_messageGroups summary_context)) \<and>
      length rest =
        length (cx_rawMessages summary_context) +
        length (List.map_filter (renderGroup plain_host) (cx_messageGroups summary_context)) \<and>
      map cg_order rest = map (\<lambda>s. Finite (orderValue s)) rest \<and>
      sorted_wrt (\<lambda>m n. m \<ge> n) (map orderValue rest)" ..
  then have "tl (chatSections plain_host summary_context) = rest" by simp
  moreover from r have "sorted_wrt (\<lambda>m n. m \<ge> n) (map orderValue rest)" by (elim conjE)
  ultimately show ?thesis using summary_sections by simp
qed

section \<open>Accept: orphan spells and failing callbacks\<close>

subsection \<open>Orphan spells\<close>

text \<open>
  C1 at a spell that has an explicit casting location and no identifier flag: the
  tagging loop reads the path "system.localtion.value", which the source does not have,
  so the spell is tagged with the synthetic identifier all the same. In the accept that
  adds it, an entry is synthesized and the spell's location is rewritten to that entry.
\<close>

theorem located_spell_tagged_orphan:
  "getProperty located_spell ''system.location.value'' = Some ''wizard-entry'' \<and>
   getFlagProperty located_spell ''identifier'' = None \<and>
   snd (tagSource ''entry0'' located_spell) \<and>
   getFlagProperty (fst (tagSource ''entry0'' located_spell)) ''identifier'' = Some ''entry0'' \<and>
   (case processDailies plain_host [''skill'' \<mapsto> spell_process]
           [element_of Select ''skill'' ''first'' ''true'' ''false'' ''arcana''] of
      Inl failure \<Rightarrow> False
    | Inr effects \<Rightarrow>
        map (map src_type) (createdSources effects) = [[''spell'', ''spellcastingEntry'']] \<and>
        itemUpdates effects =
          [[(''item0'', [(''system.location.value'', UpdateText ''item1''),
                         (''system.location.heightenedLevel'', UpdateText ''3'')])]])"
  by code_simp

subsection \<open>Callbacks that fail\<close>

text \<open>
  C2 at a daily whose callback ends in a rejected promise: \<^verbatim>\<open>#processDailies\<close> throws
  at \<^verbatim>\<open>await Promise.all\<close>, nothing is logged with the daily's key, and neither the item
  batch of the other daily nor the flag update nor the chat summary happens. With a
  callback that throws during the call instead, the error is notified and logged with
  the key and the commit goes on.
\<close>

theorem rejected_callback_aborts_commit:
  "(case processDailies plain_host [''skill'' \<mapsto> rejecting_process, ''feat'' \<mapsto> adding_process] two_dailies of
      Inl (e, effects) \<Rightarrow> e = UnhandledRejection \<and> map effectKind effects = []
    | Inr effects \<Rightarrow> False) \<and>
   (case processDailies plain_host [''skill'' \<mapsto> throwing_process, ''feat'' \<mapsto> adding_process] two_dailies of
      Inl failure \<Rightarrow> False
    | Inr effects \<Rightarrow>
        map effectKind effects = [''error'', ''log skill'', ''create'', ''flags'', ''chat''])"
  by code_simp

section \<open>Accept: throwing callbacks and the shared entry in general\<close>

subsection \<open>Callbacks that throw during the call\<close>

lemma runCallbacks_isolated:
  "noneRejected catalog dailies \<Longrightarrow>
   runCallbacks catalog dailies cx log rejected =
     Inr (foldl applyAction cx (allActions catalog dailies), log @ thrownLog catalog dailies, rejected)"
proof (induction dailies arbitrary: cx log)
  case Nil
  show ?case by (simp add: allActions_def thrownLog_def)
next
  case (Cons kr dailies)
  obtain key rows where kr: "kr = (key, rows)" by (cases kr)
  from Cons.prems obtain process where p: "catalog key = Some process" "snd (process rows) \<noteq> Rejected"
    and rest: "noneRejected catalog dailies"
    unfolding kr noneRejected_def by (auto split: option.splits)
  obtain actions out where r: "process rows = (actions, out)" by (cases "process rows")
  have a: "allActions catalog (kr # dailies) = actions @ allActions catalog dailies"
    unfolding kr by (simp add: allActions_def p r)
  show ?case
  proof (cases out)
    case Returned
    then have t: "thrownLog catalog (kr # dailies) = thrownLog catalog dailies"
      unfolding kr by (simp add: thrownLog_def p r)
    from Returned p r show ?thesis
      unfolding kr a [unfolded kr] t [unfolded kr] by (simp add: Cons.IH [OF rest])
  next
    case Threw
    then have t: "thrownLog catalog (kr # dailies) =
        [ErrorNotification ''error.unexpected'', ConsoleError key] @ thrownLog catalog dailies"
      unfolding kr by (simp add: thrownLog_def p r)
    from Threw p r show ?thesis
      unfolding kr a [unfolded kr] t [unfolded kr] by (simp add: Cons.IH [OF rest])
  next
    case Rejected
    with p(2) r show ?thesis by simp
  qed
qed

text \<open>
  Callbacks that throw during the call are isolated: when every daily is in the catalog
  and no callback ends in a rejected promise, \<^verbatim>\<open>#processDailies\<close> runs to its end. Each callback that
  throws during the call is notified and logged with its daily's key, the helper calls of
  all callbacks (those a throwing callback made before it threw included) reach the
  accumulators, and the commit follows the log.
\<close>

lemma thrown_callback_isolated:
  "noneRejected catalog (fst (collectRows (h_selectRandomOption h) rowElements ([], Map.empty)))
   \<longrightarrow> processDailies h catalog rowElements =
         Inr (thrownLog catalog (fst (collectRows (h_selectRandomOption h) rowElements ([], Map.empty))) @
              commit h (snd (collectRows (h_selectRandomOption h) rowElements ([], Map.empty)))
                (foldl applyAction initialContext
                   (allActions catalog
                      (fst (collectRows (h_selectRandomOption h) rowElements ([], Map.empty))))))"
proof
  assume n: "noneRejected catalog (fst (collectRows (h_selectRandomOption h) rowElements ([], Map.empty)))"
  obtain dailies saved where c:
    "collectRows (h_selectRandomOption h) rowElements ([], Map.empty) = (dailies, saved)"
    by (cases "collectRows (h_selectRandomOption h) rowElements ([], Map.empty)")
  from n c have "noneRejected catalog dailies" by simp
  from runCallbacks_isolated [OF this, of initialContext "[]" False] c
  show "processDailies h catalog rowElements =
         Inr (thrownLog catalog (fst (collectRows (h_selectRandomOption h) rowElements ([], Map.empty))) @
              commit h (snd (collectRows (h_selectRandomOption h) rowElements ([], Map.empty)))
                (foldl applyAction initialContext
                   (allActions catalog
                      (fst (collectRows (h_selectRandomOption h) rowElements ([], Map.empty))))))"
    by (simp add: processDailies_def)
qed

text \<open>A throwing callback beside one that adds an item.\<close>

lemma thrown_callback_isolated_example:
  "noneRejected [''skill'' \<mapsto> throwing_process, ''feat'' \<mapsto> adding_process]
     (fst (collectRows (h_selectRandomOption plain_host) two_dailies ([], Map.empty))) \<and>
   map effectKind
     (thrownLog [''skill'' \<mapsto> throwing_process, ''feat'' \<mapsto> adding_process]
        (fst (collectRows (h_selectRandomOption plain_host) two_dailies ([], Map.empty)))) =
     [''error'', ''log skill''] \<and>
   (\<exists>effects. processDailies plain_host [''skill'' \<mapsto> throwing_process, ''feat'' \<mapsto> adding_process] two_dailies =
      Inr effects)"
proof -
  let ?cat = "[''skill'' \<mapsto> throwing_process, ''feat'' \<mapsto> adding_process]"
  let ?dailies = "fst (collectRows (h_selectRandomOption plain_host) two_dailies ([], Map.empty))"
  have keys: "map fst ?dailies = [''skill'', ''feat'']"
    by (simp add: two_dailies_def element_of_def rowValue_def Let_def)
  then obtain r1 r2 where d: "?dailies = [(''skill'', r1), (''feat'', r2)]"
    by (cases ?dailies; cases "tl ?dailies"; cases "tl (tl ?dailies)") auto
  have n: "noneRejected ?cat ?dailies"
    unfolding d by (simp add: noneRejected_def throwing_process_def adding_process_def)
  have l: "map effectKind (thrownLog ?cat ?dailies) = [''error'', ''log skill'']"
    unfolding d by (simp add: thrownLog_def throwing_process_def adding_process_def)
  from n thrown_callback_isolated [of ?cat plain_host two_dailies]
  have "\<exists>effects. processDailies plain_host ?cat two_dailies = Inr effects" by blast
  with n l show ?thesis by blast
qed

subsection \<open>Synthesized entry\<close>

lemma getFlagProperty_set:
  "getFlagProperty (setFlagProperty s k v) k' = (if k' = k then Some v else getFlagProperty s k')"
proof -
  have "map_of (filter (\<lambda>(x, _). x \<noteq> k) xs) k' = (if k' = k then None else map_of xs k')" for xs :: "(string \<times> string) list"
    by (induction xs) auto
  then show ?thesis by (simp add: getFlagProperty_def setFlagProperty_def)
qed

lemma setFlagProperty_other [simp]:
  "src_type (setFlagProperty s k v) = src_type s"
  "getProperty (setFlagProperty s k v) p = getProperty s p"
  by (simp_all add: setFlagProperty_def getProperty_def)

lemma tagSource_tagged_iff:
  "snd (tagSource i s) \<longleftrightarrow>
   src_type s = ''spell'' \<and> \<not> truthy (getProperty s ''system.localtion.value'') \<and>
   \<not> truthy (getFlagProperty s ''identifier'')"
  by (simp add: tagSource_def Let_def getFlagProperty_set)

lemma tagSource_tagged:
  "snd (tagSource i s) \<Longrightarrow>
   src_type (fst (tagSource i s)) = ''spell'' \<and>
   getFlagProperty (fst (tagSource i s)) ''identifier'' = Some i"
  by (auto simp: tagSource_def Let_def getFlagProperty_set split: if_splits)

lemma synthesizeEntry_entry:
  "synthesizeEntry h = Some entry \<Longrightarrow>
   src_type entry = ''spellcastingEntry'' \<and>
   getFlagProperty entry ''identifier'' = Some (h_randomID h) \<and>
   getProperty entry ''system.prepared.value'' = Some ''innate''"
  by (auto simp: synthesizeEntry_def Let_def createSpellcastingEntrySource_def getFlagProperty_set
      getFlagProperty_def getProperty_def setFlagProperty_def split: option.splits prod.splits if_splits)

lemma synthesizeEntry_None:
  "synthesizeEntry h = None \<longleftrightarrow> h_highestSpellcasting h = None \<and> h_highestSynthetic h = None"
  by (auto simp: synthesizeEntry_def Let_def split: option.splits prod.splits if_splits)

lemma reconcileAdded_tagged:
  "list_ex (\<lambda>s. snd (tagSource (h_randomID h) s)) srcs \<Longrightarrow> synthesizeEntry h = Some entry \<Longrightarrow>
   reconcileAdded h srcs = map (\<lambda>s. fst (tagSource (h_randomID h) s)) srcs @ [entry]"
  by (simp add: reconcileAdded_def Let_def list_ex_iff comp_def)

lemma reconcileAdded_untagged:
  "\<not> list_ex (\<lambda>s. snd (tagSource (h_randomID h) s)) srcs \<Longrightarrow>
   reconcileAdded h srcs = map (\<lambda>s. fst (tagSource (h_randomID h) s)) srcs"
  by (simp add: reconcileAdded_def Let_def list_ex_iff comp_def)

subsection \<open>Item updates\<close>

lemma map_of_upsert:
  "map_of (upsert k f new xs) k' =
     (if k' = k then Some (case map_of xs k of None \<Rightarrow> new | Some v \<Rightarrow> f v) else map_of xs k')"
  by (induction xs) auto

lemma map_of_filter_absent:
  "p \<in> fst ` set F \<Longrightarrow> map_of (filter (\<lambda>(q, _). q \<notin> fst ` set F) old) p = None"
  by (induction old) (auto simp: image_iff)

lemma map_of_filter_kept:
  "p \<notin> fst ` set F \<Longrightarrow> map_of (filter (\<lambda>(q, _). q \<notin> fst ` set F) old) p = map_of old p"
  by (induction old) (auto simp: image_iff)

lemma locationOf_set:
  "map_of F ''system.location.value'' = Some v \<Longrightarrow> locationOf (updateItem k F U) k = Some v"
proof -
  assume a: "map_of F ''system.location.value'' = Some v"
  then have "(''system.location.value'', v) \<in> set F" by (rule map_of_SomeD)
  then have "''system.location.value'' \<in> fst ` set F" by force
  then have "map_of (filter (\<lambda>(q, _). q \<notin> fst ` set F) old @ F) ''system.location.value'' = Some v" for old
    using a by (simp add: map_add_def map_of_filter_absent)
  with a show ?thesis
    by (simp add: locationOf_def updateItem_def map_of_upsert split: option.splits)
qed

lemma locationOf_other:
  "k' \<noteq> k \<Longrightarrow> locationOf (updateItem k' F U) k = locationOf U k"
  by (simp add: locationOf_def updateItem_def map_of_upsert)

lemma locationOf_kept:
  "''system.location.value'' \<notin> fst ` set F \<Longrightarrow> locationOf U k = Some v \<Longrightarrow>
   locationOf (updateItem k' F U) k = Some v"
proof (cases "k' = k")
  case False
  assume "locationOf U k = Some v"
  with False show ?thesis by (simp add: locationOf_other)
next
  case True
  assume n: "''system.location.value'' \<notin> fst ` set F" and l: "locationOf U k = Some v"
  from l obtain old where old: "map_of U k = Some old" "map_of old ''system.location.value'' = Some v"
    by (auto simp: locationOf_def split: option.splits)
  from n have "map_of F ''system.location.value'' = None"
    by (simp add: map_of_eq_None_iff)
  with n old(2) have "map_of (filter (\<lambda>(q, _). q \<notin> fst ` set F) old @ F) ''system.location.value'' = Some v"
    by (simp add: map_add_def map_of_filter_kept)
  with True old(1) show ?thesis
    by (simp add: locationOf_def updateItem_def map_of_upsert)
qed

lemma createEmbeddedDocuments_snoc:
  "createEmbeddedDocuments h (xs @ [e]) =
   createEmbeddedDocuments h xs @ [\<lparr>ci_id = h_createdId h (length xs), ci_source = e\<rparr>]"
  by (simp add: createEmbeddedDocuments_def enumerate_append_eq)

lemma createEmbeddedDocuments_nth:
  "j < length xs \<Longrightarrow>
   createEmbeddedDocuments h xs ! j = \<lparr>ci_id = h_createdId h j, ci_source = xs ! j\<rparr>"
  by (simp add: createEmbeddedDocuments_def nth_enumerate_eq)

lemma length_createEmbeddedDocuments [simp]:
  "length (createEmbeddedDocuments h xs) = length xs"
  by (simp add: createEmbeddedDocuments_def)

lemma foldl_relocates:
  assumes "spell \<in> set spells"
  shows "locationOf
           (foldl (\<lambda>acc s. updateItem (ci_id s)
                     [(''system.location.value'', UpdateText eid),
                      (''system.location.heightenedLevel'', rank s)] acc) U spells)
           (ci_id spell) = Some (UpdateText eid)"
  using assms
proof (induction spells rule: rev_induct)
  case Nil
  then show ?case by simp
next
  case (snoc x xs)
  show ?case
  proof (cases "ci_id x = ci_id spell")
    case True
    then show ?thesis by (simp add: locationOf_set)
  next
    case False
    with snoc.prems have "spell \<in> set xs" by auto
    with snoc.IH False show ?thesis by (simp add: locationOf_other)
  qed
qed

lemma foldl_rules_keep:
  "locationOf U k = Some v \<Longrightarrow>
   locationOf (foldl (\<lambda>acc (itemId, rules). updateItem itemId [(''system.rules'', UpdateRules rules)] acc)
                 U rs) k = Some v"
proof (induction rs arbitrary: U)
  case Nil
  then show ?case by simp
next
  case (Cons r rs)
  obtain itemId rules where r: "r = (itemId, rules)" by (cases r)
  from Cons.prems have
    "locationOf (updateItem itemId [(''system.rules'', UpdateRules rules)] U) k = Some v"
    by (intro locationOf_kept) simp_all
  from Cons.IH [OF this] show ?case by (simp add: r)
qed

lemma linkItem_entry:
  assumes "src_type (ci_source E) = ''spellcastingEntry''"
      and "getFlagProperty (ci_source E) ''identifier'' = Some rid" "rid \<noteq> []"
      and "spell \<in> set items" "src_type (ci_source spell) = ''spell''"
      and "getFlagProperty (ci_source spell) ''identifier'' = Some rid"
  shows "locationOf (linkItem h items U E) (ci_id spell) = Some (UpdateText (ci_id E))"
proof -
  from assms(3) obtain c cs where rid: "rid = c # cs" by (cases rid) auto
  let ?S = "filter (\<lambda>s. src_type (ci_source s) = ''spell'' \<and>
                     getFlagProperty (ci_source s) ''identifier'' = Some (c # cs)) items"
  from assms(4,5,6) have "spell \<in> set ?S" by (simp add: rid)
  from foldl_relocates [OF this, of "ci_id E"
      "\<lambda>s. case getFlagProperty (ci_source s) ''rank'' of None \<Rightarrow> UpdateMissing | Some r \<Rightarrow> UpdateText r" U]
  show ?thesis using assms(1,2) by (simp add: linkItem_def rid)
qed

lemma commit_relocates:
  assumes e: "synthesizeEntry h = Some entry" and rid: "h_randomID h \<noteq> []"
      and i: "i < length (cx_addedItems cx)" "snd (tagSource (h_randomID h) (cx_addedItems cx ! i))"
  shows "\<exists>updates. UpdateEmbeddedDocuments updates \<in> set (commit h saved cx) \<and>
           (\<forall>u. UpdateEmbeddedDocuments u \<in> set (commit h saved cx) \<longrightarrow> u = updates) \<and>
           locationOf updates (h_createdId h i) =
             Some (UpdateText (h_createdId h (length (cx_addedItems cx))))"
proof -
  let ?srcs = "cx_addedItems cx"
  let ?tag = "\<lambda>s. fst (tagSource (h_randomID h) s)"
  let ?E = "\<lparr>ci_id = h_createdId h (length ?srcs), ci_source = entry\<rparr>"
  let ?front = "createEmbeddedDocuments h (map ?tag ?srcs)"
  let ?items = "?front @ [?E]"
  from i have ex: "list_ex (\<lambda>s. snd (tagSource (h_randomID h) s)) ?srcs"
    by (auto simp: list_ex_iff)
  from reconcileAdded_tagged [OF ex e] have added: "reconcileAdded h ?srcs = map ?tag ?srcs @ [entry]" .
  have items: "createEmbeddedDocuments h (reconcileAdded h ?srcs) = ?items"
    by (simp add: added createEmbeddedDocuments_snoc)
  let ?spell = "\<lparr>ci_id = h_createdId h i, ci_source = ?tag (?srcs ! i)\<rparr>"
  from i(1) have "?front ! i = ?spell" by (simp add: createEmbeddedDocuments_nth)
  with i(1) have "?spell \<in> set ?front" by (metis length_createEmbeddedDocuments length_map nth_mem)
  then have in_items: "?spell \<in> set ?items" by simp
  from tagSource_tagged [OF i(2)] have sp: "src_type (ci_source ?spell) = ''spell''"
      "getFlagProperty (ci_source ?spell) ''identifier'' = Some (h_randomID h)" by simp_all
  from synthesizeEntry_entry [OF e] have en: "src_type (ci_source ?E) = ''spellcastingEntry''"
      "getFlagProperty (ci_source ?E) ''identifier'' = Some (h_randomID h)" by simp_all
  let ?U1 = "foldl (linkItem h ?items) (cx_updatedItems cx) ?items"
  have "?U1 = linkItem h ?items (foldl (linkItem h ?items) (cx_updatedItems cx) ?front) ?E"
    by simp
  also have "locationOf \<dots> (ci_id ?spell) = Some (UpdateText (ci_id ?E))"
    using en rid in_items sp by (rule linkItem_entry)
  finally have l1: "locationOf ?U1 (h_createdId h i) = Some (UpdateText (h_createdId h (length ?srcs)))"
    by simp
  let ?U2 = "foldl (\<lambda>acc (itemId, rules). updateItem itemId [(''system.rules'', UpdateRules rules)] acc)
               ?U1 (cx_itemsRules cx)"
  from l1 have l2: "locationOf ?U2 (h_createdId h i) = Some (UpdateText (h_createdId h (length ?srcs)))"
    by (rule foldl_rules_keep)
  then have ne: "?U2 \<noteq> []" by (auto simp: locationOf_def)
  have eff: "UpdateEmbeddedDocuments u \<in> set (commit h saved cx) \<longleftrightarrow> u = ?U2" for u
    using ne by (auto simp: commit_def Let_def added items [unfolded added])
  with l2 show ?thesis by blast
qed

text \<open>
  Orphan spells of one accept share one synthesized entry: when the actor has a statistic,
  the identifier is not empty and at least one added source is tagged, the sources handed
  to the item store are the added sources followed by exactly one new entry, an innate
  spellcasting entry that carries the identifier; the commit makes one item update, and
  in it the location of every tagged spell is the id of that entry. A source is tagged
  exactly when it is a spell without identifier flag and without a value at the path
  "system.localtion.value", and no entry is synthesized exactly when the actor has
  neither statistic.
\<close>

lemma orphan_spells_share_one_entry:
  "(synthesizeEntry h = Some entry \<and> h_randomID h \<noteq> [] \<and>
    list_ex (\<lambda>s. snd (tagSource (h_randomID h) s)) (cx_addedItems cx)
    \<longrightarrow> reconcileAdded h (cx_addedItems cx) =
          map (\<lambda>s. fst (tagSource (h_randomID h) s)) (cx_addedItems cx) @ [entry] \<and>
        src_type entry = ''spellcastingEntry'' \<and>
        getFlagProperty entry ''identifier'' = Some (h_randomID h) \<and>
        getProperty entry ''system.prepared.value'' = Some ''innate'' \<and>
        (\<exists>updates. UpdateEmbeddedDocuments updates \<in> set (commit h saved cx) \<and>
           (\<forall>u. UpdateEmbeddedDocuments u \<in> set (commit h saved cx) \<longrightarrow> u = updates) \<and>
           (\<forall>i<length (cx_addedItems cx).
              snd (tagSource (h_randomID h) (cx_addedItems cx ! i)) \<longrightarrow>
              locationOf updates (h_createdId h i) =
                Some (UpdateText (h_createdId h (length (cx_addedItems cx)))))))
   \<and> (snd (tagSource i s) \<longleftrightarrow>
        src_type s = ''spell'' \<and> \<not> truthy (getProperty s ''system.localtion.value'') \<and>
        \<not> truthy (getFlagProperty s ''identifier''))
   \<and> (synthesizeEntry h = None \<longleftrightarrow> h_highestSpellcasting h = None \<and> h_highestSynthetic h = None)"
proof (intro conjI impI)
  assume a: "synthesizeEntry h = Some entry \<and> h_randomID h \<noteq> [] \<and>
    list_ex (\<lambda>s. snd (tagSource (h_randomID h) s)) (cx_addedItems cx)"
  then have e: "synthesizeEntry h = Some entry" and rid: "h_randomID h \<noteq> []"
    and ex: "list_ex (\<lambda>s. snd (tagSource (h_randomID h) s)) (cx_addedItems cx)" by simp_all
  from reconcileAdded_tagged [OF ex e]
  show "reconcileAdded h (cx_addedItems cx) =
          map (\<lambda>s. fst (tagSource (h_randomID h) s)) (cx_addedItems cx) @ [entry]" .
  from synthesizeEntry_entry [OF e] show "src_type entry = ''spellcastingEntry''" by simp
  from synthesizeEntry_entry [OF e] show "getFlagProperty entry ''identifier'' = Some (h_randomID h)"
    by simp
  from synthesizeEntry_entry [OF e] show "getProperty entry ''system.prepared.value'' = Some ''innate''"
    by simp
  from ex obtain j where j: "j < length (cx_addedItems cx)"
      "snd (tagSource (h_randomID h) (cx_addedItems cx ! j))"
    by (auto simp: list_ex_iff in_set_conv_nth)
  from commit_relocates [OF e rid j, of saved] obtain updates where
    u: "UpdateEmbeddedDocuments updates \<in> set (commit h saved cx)"
       "\<forall>u. UpdateEmbeddedDocuments u \<in> set (commit h saved cx) \<longrightarrow> u = updates" by blast
  have "\<forall>i<length (cx_addedItems cx).
          snd (tagSource (h_randomID h) (cx_addedItems cx ! i)) \<longrightarrow>
          locationOf updates (h_createdId h i) =
            Some (UpdateText (h_createdId h (length (cx_addedItems cx))))"
  proof (intro allI impI)
    fix i assume i: "i < length (cx_addedItems cx)"
      "snd (tagSource (h_randomID h) (cx_addedItems cx ! i))"
    from commit_relocates [OF e rid i, of saved] obtain u' where
      "UpdateEmbeddedDocuments u' \<in> set (commit h saved cx)"
      "locationOf u' (h_createdId h i) = Some (UpdateText (h_createdId h (length (cx_addedItems cx))))"
      by blast
    with u(2) show "locationOf updates (h_createdId h i) =
            Some (UpdateText (h_createdId h (length (cx_addedItems cx))))" by blast
  qed
  with u show "\<exists>updates. UpdateEmbeddedDocuments updates \<in> set (commit h saved cx) \<and>
           (\<forall>u. UpdateEmbeddedDocuments u \<in> set (commit h saved cx) \<longrightarrow> u = updates) \<and>
           (\<forall>i<length (cx_addedItems cx).
              snd (tagSource (h_randomID h) (cx_addedItems cx ! i)) \<longrightarrow>
              locationOf updates (h_createdId h i) =
                Some (UpdateText (h_createdId h (length (cx_addedItems cx)))))"
    by blast
next
  show "snd (tagSource i s) \<longleftrightarrow>
        src_type s = ''spell'' \<and> \<not> truthy (getProperty s ''system.localtion.value'') \<and>
        \<not> truthy (getFlagProperty s ''identifier'')"
    by (rule tagSource_tagged_iff)
next
  show "synthesizeEntry h = None \<longleftrightarrow> h_highestSpellcasting h = None \<and> h_highestSynthetic h = None"
    by (rule synthesizeEntry_None)
qed

text \<open>Two orphan spells in one accept: both are relocated into the third created item.\<close>

lemma orphan_spells_share_one_entry_example:
  "length (reconcileAdded plain_host (cx_addedItems two_orphans)) = 3 \<and>
   (\<exists>updates. UpdateEmbeddedDocuments updates \<in> set (commit plain_host Map.empty two_orphans) \<and>
      locationOf updates ''item0'' = Some (UpdateText ''item2'') \<and>
      locationOf updates ''item1'' = Some (UpdateText ''item2''))"
proof -
  obtain entry where e: "synthesizeEntry plain_host = Some entry"
    using synthesizeEntry_None [of plain_host] by (cases "synthesizeEntry plain_host") (auto simp: plain_host_def)
  have rid: "h_randomID plain_host \<noteq> []" by (simp add: plain_host_def)
  have ex: "list_ex (\<lambda>s. snd (tagSource (h_randomID plain_host) s)) (cx_addedItems two_orphans)"
    by code_simp
  have len: "length (cx_addedItems two_orphans) = 2" by code_simp
  have tagged: "snd (tagSource (h_randomID plain_host) (cx_addedItems two_orphans ! 0))"
    "snd (tagSource (h_randomID plain_host) (cx_addedItems two_orphans ! 1))"
    by code_simp+
  have ids: "h_createdId plain_host 0 = ''item0''" "h_createdId plain_host 1 = ''item1''"
    "h_createdId plain_host 2 = ''item2''" "h_createdId plain_host (Suc 0) = ''item1''"
    by code_simp+
  note inst = orphan_spells_share_one_entry [of plain_host entry two_orphans Map.empty, THEN conjunct1,
      THEN mp, OF conjI [OF e conjI [OF rid ex]]]
  from inst have r: "reconcileAdded plain_host (cx_addedItems two_orphans) =
      map (\<lambda>s. fst (tagSource (h_randomID plain_host) s)) (cx_addedItems two_orphans) @ [entry]"
    by (elim conjE)
  from inst obtain updates where
    u: "UpdateEmbeddedDocuments updates \<in> set (commit plain_host Map.empty two_orphans)"
    and all: "\<forall>i<length (cx_addedItems two_orphans).
              snd (tagSource (h_randomID plain_host) (cx_addedItems two_orphans ! i)) \<longrightarrow>
              locationOf updates (h_createdId plain_host i) =
                Some (UpdateText (h_createdId plain_host (length (cx_addedItems two_orphans))))"
    by (elim conjE exE)
  from all tagged len have "locationOf updates (h_createdId plain_host 0) =
      Some (UpdateText (h_createdId plain_host 2))" by auto
  moreover from all tagged len have "locationOf updates (h_createdId plain_host 1) =
      Some (UpdateText (h_createdId plain_host 2))" by auto
  ultimately have "locationOf updates ''item0'' = Some (UpdateText ''item2'')"
    "locationOf updates ''item1'' = Some (UpdateText ''item2'')" by (simp_all add: ids)
  moreover from r len have "length (reconcileAdded plain_host (cx_addedItems two_orphans)) = 3" by simp
  ultimately show ?thesis using u by blast
qed

end
